theory Spec2Isabelle
  imports Complex_Main "HOL-Library.Log_Nat"
begin

section \<open>Numbers: Python floats\<close>

text \<open>
  A Python \<open>float\<close> is an IEEE 754 double: a number, one of the two infinities, or
  not-a-number.  A finite double is given by the rational it denotes.  The two zeros are one
  value here: they compare equal, and they differ only in how they are printed.
\<close>

datatype pyfloat = Fin rat | PInf | NInf | NaN

subsection \<open>Rounding to a double\<close>

text \<open>
  Every arithmetic operation on doubles returns the exact result rounded to the nearest
  double, a tie going to the double with the even significand.  A double has 53 significant
  bits; its last bit has the weight \<open>2 ^ e\<close>, where \<open>e\<close> is 52 below the binary exponent of the number
  and never below \<open>-1074\<close> (the subnormal numbers).  A result that rounds to \<open>2 ^ 1024\<close> or beyond
  is an infinity.
\<close>

text \<open>The binary exponent of a positive number: the integer part of its logarithm to base 2.\<close>

definition ilog2 :: "rat \<Rightarrow> int" where
  "ilog2 a = (if 1 \<le> a then bitlen \<lfloor>a\<rfloor> - 1 else - bitlen (\<lceil>1 / a\<rceil> - 1))"

text \<open>The nearest integer, a tie going to the even one.\<close>

definition round_half_even :: "rat \<Rightarrow> int" where
  "round_half_even x =
     (let n = \<lfloor>x\<rfloor>; r = x - of_int n
      in if r < 1 / 2 then n else if 1 / 2 < r then n + 1 else if even n then n else n + 1)"

definition ulp_exponent :: "rat \<Rightarrow> int" where
  "ulp_exponent a = max (ilog2 a - 52) (- 1074)"

text \<open>A positive number rounded to a multiple of the weight of its last bit.\<close>

definition round_magnitude :: "rat \<Rightarrow> rat" where
  "round_magnitude a =
     of_int (round_half_even (a / 2 powi ulp_exponent a)) * 2 powi ulp_exponent a"

definition round_double :: "rat \<Rightarrow> pyfloat" where
  "round_double q =
     (if q = 0 then Fin 0
      else (let v = round_magnitude \<bar>q\<bar>
            in if 2 powi 1024 \<le> v then (if q < 0 then NInf else PInf)
               else Fin (if q < 0 then - v else v)))"

subsection \<open>Comparison and arithmetic\<close>

text \<open>\<open>a <= b\<close> and \<open>a < b\<close> on floats.\<close>

fun fle :: "pyfloat \<Rightarrow> pyfloat \<Rightarrow> bool" where
  "fle NaN _ = False"
| "fle _ NaN = False"
| "fle NInf _ = True"
| "fle _ PInf = True"
| "fle (Fin a) (Fin b) = (a \<le> b)"
| "fle _ _ = False"

fun flt :: "pyfloat \<Rightarrow> pyfloat \<Rightarrow> bool" where
  "flt NaN _ = False"
| "flt _ NaN = False"
| "flt PInf _ = False"
| "flt _ NInf = False"
| "flt (Fin a) (Fin b) = (a < b)"
| "flt _ _ = True"

text \<open>\<open>a >= b\<close> and \<open>a > b\<close> are the same comparisons with the operands exchanged.\<close>

definition fge :: "pyfloat \<Rightarrow> pyfloat \<Rightarrow> bool" where
  "fge a b = fle b a"

definition fgt :: "pyfloat \<Rightarrow> pyfloat \<Rightarrow> bool" where
  "fgt a b = flt b a"

text \<open>
  \<open>a + b\<close> on floats: the sum of two numbers is rounded; not-a-number is contagious, and
  opposite infinities give not-a-number.
\<close>

fun fadd :: "pyfloat \<Rightarrow> pyfloat \<Rightarrow> pyfloat" where
  "fadd NaN _ = NaN"
| "fadd _ NaN = NaN"
| "fadd PInf NInf = NaN"
| "fadd NInf PInf = NaN"
| "fadd PInf _ = PInf"
| "fadd _ PInf = PInf"
| "fadd NInf _ = NInf"
| "fadd _ NInf = NInf"
| "fadd (Fin a) (Fin b) = round_double (a + b)"

text \<open>
  \<open>total / len(marks)\<close>: a float divided by a positive integer.  The integer is converted
  to a double first, which is exact below \<open>2 ^ 53\<close>, and the quotient is rounded.  (Division by
  zero raises in Python, and so does the conversion of an integer from \<open>2 ^ 1024\<close> on;
  \<open>calculate_average\<close> only divides by the length of a non-empty dictionary, and no
  dictionary is that long: the last case of the conversion is never taken.)
\<close>

fun fdiv_len :: "pyfloat \<Rightarrow> nat \<Rightarrow> pyfloat" where
  "fdiv_len (Fin a) n =
     (case round_double (of_nat n) of
        Fin b \<Rightarrow> round_double (a / b)
      | _ \<Rightarrow> NaN)"
| "fdiv_len PInf n = PInf"
| "fdiv_len NInf n = NInf"
| "fdiv_len NaN n = NaN"

section \<open>Dictionaries\<close>

text \<open>
  A Python \<open>dict\<close> keeps its keys in insertion order; it is an association list with
  distinct keys.  \<open>d[k] = v\<close> replaces the value of an existing key where it stands and puts
  a new key at the end.
\<close>

type_synonym ('k, 'v) pydict = "('k \<times> 'v) list"

fun dict_setitem :: "('k, 'v) pydict \<Rightarrow> 'k \<Rightarrow> 'v \<Rightarrow> ('k, 'v) pydict" where
  "dict_setitem [] k v = [(k, v)]"
| "dict_setitem ((k', v') # d) k v =
     (if k' = k then (k, v) # d else (k', v') # dict_setitem d k v)"

text \<open>\<open>d.get(k)\<close>, \<open>d.keys()\<close>, \<open>d.values()\<close>.\<close>

definition dict_get :: "('k, 'v) pydict \<Rightarrow> 'k \<Rightarrow> 'v option" where
  "dict_get d k = map_of d k"

definition dict_keys :: "('k, 'v) pydict \<Rightarrow> 'k list" where
  "dict_keys d = map fst d"

definition dict_values :: "('k, 'v) pydict \<Rightarrow> 'v list" where
  "dict_values d = map snd d"

section \<open>Grading\<close>

text \<open>The table \<open>GRADE_BOUNDARIES\<close>, in the order it is written.\<close>

definition GRADE_BOUNDARIES :: "(string, int) pydict" where
  "GRADE_BOUNDARIES =
     [(''A'', 90), (''B'', 80), (''C'', 70), (''D'', 60), (''F'', 0)]"

text \<open>
  \<open>sorted(items, key=..., reverse=True)\<close>: a stable sort into descending order of the key.
  Python reverses the list, sorts it stably into ascending order, and reverses the result.
\<close>

definition sorted_reverse :: "('a \<Rightarrow> int) \<Rightarrow> 'a list \<Rightarrow> 'a list" where
  "sorted_reverse key xs = rev (sort_key key (rev xs))"

text \<open>
  The \<open>for\<close> loop of \<open>get_grade\<close>: the first grade whose lower bound the average reaches,
  or nothing when the loop runs to its end.
\<close>

fun scan_boundaries :: "pyfloat \<Rightarrow> (string \<times> int) list \<Rightarrow> string option" where
  "scan_boundaries avg [] = None"
| "scan_boundaries avg ((grade, lower) # rest) =
     (if fge avg (Fin (of_int lower)) then Some grade else scan_boundaries avg rest)"

definition get_grade :: "pyfloat option \<Rightarrow> string" where
  "get_grade average_score =
     (case average_score of
        None \<Rightarrow> ''N/A''
      | Some avg \<Rightarrow>
          if fgt avg (Fin 100) then ''A+''
          else if flt avg (Fin 0) then ''F''
          else (case scan_boundaries avg (sorted_reverse snd GRADE_BOUNDARIES) of
                  Some grade \<Rightarrow> grade
                | None \<Rightarrow> ''N/A''))"

text \<open>
  The reference definition of the specification, written from its words: an absent average
  has no grade; an average above 100 is ``A+''; one below 0 is ``F''; otherwise the grade is
  the first one, in the table ordered from the highest minimum to the lowest, whose minimum
  is at most the average.
\<close>

definition grade_table_desc :: "(string \<times> rat) list" where
  "grade_table_desc = [(''A'', 90), (''B'', 80), (''C'', 70), (''D'', 60), (''F'', 0)]"

definition grade_reference :: "pyfloat option \<Rightarrow> string" where
  "grade_reference average =
     (case average of
        None \<Rightarrow> ''N/A''
      | Some a \<Rightarrow>
          if flt (Fin 100) a then ''A+''
          else if flt a (Fin 0) then ''F''
          else (case find (\<lambda>(g, minimum). fle (Fin minimum) a) grade_table_desc of
                  Some (g, minimum) \<Rightarrow> g
                | None \<Rightarrow> ''N/A''))"

text \<open>
  \<open>sum(float(v) for v in marks.values())\<close> starts from 0 and adds the values in order,
  rounding each sum.  (This is the \<open>sum\<close> of CPython up to version 3.11; later versions carry
  a correction term along when the values are floats.)
\<close>

definition calculate_average :: "(string, pyfloat) pydict \<Rightarrow> pyfloat" where
  "calculate_average marks =
     (if marks = [] then Fin 0
      else fdiv_len (foldl fadd (Fin 0) (dict_values marks)) (length marks))"

section \<open>Strings\<close>

text \<open>
  A Python \<open>str\<close> is modelled by a HOL \<open>string\<close>, whose characters are the code points
  below 256.  \<open>isspace\<close> lists the characters of that range that \<open>str.strip()\<close> removes:
  tab, line feed, vertical tab, form feed, carriage return, the four separators
  \<open>0x1C\<close> to \<open>0x1F\<close>, space, next-line and no-break space.
\<close>

definition isspace :: "char \<Rightarrow> bool" where
  "isspace c = (c \<in> set [CHR 0x09, CHR 0x0A, CHR 0x0B, CHR 0x0C, CHR 0x0D,
                          CHR 0x1C, CHR 0x1D, CHR 0x1E, CHR 0x1F, CHR '' '',
                          CHR 0x85, CHR 0xA0])"

definition strip :: "string \<Rightarrow> string" where
  "strip s = rev (dropWhile isspace (rev (dropWhile isspace s)))"

subsection \<open>The conversion \<open>float(s)\<close>\<close>

text \<open>
  \<open>float\<close> applied to a string either returns a float or raises \<open>ValueError\<close>
  (\<open>None\<close> here).  The accepted strings are an optional sign followed by decimal digits with
  an optional point and an optional exponent, or by \<open>inf\<close>, \<open>infinity\<close> or \<open>nan\<close> in any
  mixture of cases; single underscores may stand between two digits.  The decimal value is
  rounded to the nearest double: a value too large becomes an infinity, one too small a
  zero.  (Of the decimal digits of Unicode that \<open>float\<close> accepts, only \<open>0\<close> to \<open>9\<close> have a
  code point below 256.)
\<close>

definition isdigit :: "char \<Rightarrow> bool" where
  "isdigit c = (c \<in> set ''0123456789'')"

definition digit_val :: "char \<Rightarrow> nat" where
  "digit_val c = of_char c - 48"

definition digits_val :: "string \<Rightarrow> nat" where
  "digits_val ds = foldl (\<lambda>n c. 10 * n + digit_val c) 0 ds"

definition lower :: "char \<Rightarrow> char" where
  "lower c =
     (case map_of (zip ''ABCDEFGHIJKLMNOPQRSTUVWXYZ'' ''abcdefghijklmnopqrstuvwxyz'') c of
        Some l \<Rightarrow> l
      | None \<Rightarrow> c)"

definition match_ci :: "string \<Rightarrow> string \<Rightarrow> bool" where
  "match_ci s pat = (map lower (take (length pat) s) = pat)"

text \<open>
  An underscore is allowed only after a digit and before a digit.  The first argument is the
  previous character, the null character at the start.
\<close>

fun underscores_ok :: "char \<Rightarrow> string \<Rightarrow> bool" where
  "underscores_ok prev [] = (prev \<noteq> CHR ''_'')"
| "underscores_ok prev (c # cs) =
     (if c = CHR ''_'' then isdigit prev \<and> underscores_ok c cs
      else if prev = CHR ''_'' then isdigit c \<and> underscores_ok c cs
      else underscores_ok c cs)"

definition parse_sign :: "string \<Rightarrow> bool \<times> string" where
  "parse_sign s =
     (case s of
        [] \<Rightarrow> (False, [])
      | c # t \<Rightarrow> if c = CHR ''-'' then (True, t) else if c = CHR ''+'' then (False, t)
                 else (False, s))"

text \<open>
  The exponent part: its value and what follows it.  An \<open>e\<close> that no digit follows is not
  an exponent and is left unread.
\<close>

definition parse_exponent :: "string \<Rightarrow> int \<times> string" where
  "parse_exponent s =
     (case s of
        [] \<Rightarrow> (0, [])
      | c # t \<Rightarrow>
          if c = CHR ''e'' \<or> c = CHR ''E'' then
            (let (eneg, t1) = parse_sign t;
                 ed = takeWhile isdigit t1
             in if ed = [] then (0, s)
                else ((if eneg then - int (digits_val ed) else int (digits_val ed)),
                      dropWhile isdigit t1))
          else (0, s))"

definition scale10 :: "rat \<Rightarrow> int \<Rightarrow> rat" where
  "scale10 m k = (if 0 \<le> k then m * 10 ^ nat k else m / 10 ^ nat (- k))"

text \<open>
  The decimal number at the start of a string, with the unread rest; \<open>None\<close> when the string
  does not start with a number (a number has at least one digit).
\<close>

definition parse_number :: "string \<Rightarrow> (pyfloat \<times> string) option" where
  "parse_number s =
     (let (neg, r0) = parse_sign s;
          intd = takeWhile isdigit r0;
          r1 = dropWhile isdigit r0;
          (fracd, r2) = (case r1 of
                           [] \<Rightarrow> ([], r1)
                         | c # t \<Rightarrow> if c = CHR ''.'' then (takeWhile isdigit t, dropWhile isdigit t)
                                    else ([], r1))
      in if intd = [] \<and> fracd = [] then None
         else (let (e, r3) = parse_exponent r2;
                   m = scale10 (of_nat (digits_val (intd @ fracd))) (e - int (length fracd))
               in Some (round_double (if neg then - m else m), r3)))"

definition parse_inf_or_nan :: "string \<Rightarrow> pyfloat option" where
  "parse_inf_or_nan s =
     (let (neg, r) = parse_sign s
      in if match_ci r ''inf'' then
           (let r1 = drop 3 r;
                r2 = (if match_ci r1 ''inity'' then drop 5 r1 else r1)
            in if r2 = [] then Some (if neg then NInf else PInf) else None)
         else if match_ci r ''nan'' then
           (if drop 3 r = [] then Some NaN else None)
         else None)"

definition float_of_str :: "string \<Rightarrow> pyfloat option" where
  "float_of_str s =
     (if \<not> underscores_ok (CHR 0x00) s then None
      else (let t = filter (\<lambda>c. c \<noteq> CHR ''_'') s
            in case parse_number t of
                 Some (v, rest) \<Rightarrow> if rest = [] then Some v else None
               | None \<Rightarrow> parse_inf_or_nan t))"

section \<open>The session store\<close>

text \<open>
  The program keeps three globals: \<open>student_records\<close>, \<open>current_student_marks\<close> and
  \<open>current_student_name\<close>.  Dictionaries of marks are objects: \<open>add_module_mark\<close> changes
  the dictionary that \<open>current_student_marks\<close> refers to in place, and a saved record
  refers to a dictionary too.  They therefore live in a heap, and the state holds their
  addresses; \<open>next_free\<close> is the first address not yet handed out.
\<close>

type_synonym addr = nat

record student_record =
  marks :: addr
  average :: pyfloat
  grade :: string

record state =
  student_records :: "(string, student_record) pydict"
  current_student_marks :: addr
  current_student_name :: string
  heap :: "addr \<Rightarrow> (string, pyfloat) pydict"
  next_free :: addr

text \<open>The state when the program starts: no records, an empty dictionary, no name.\<close>

definition initial_state :: state where
  "initial_state =
     \<lparr>student_records = [], current_student_marks = 0, current_student_name = [],
      heap = (\<lambda>a. []), next_free = 1\<rparr>"

text \<open>A new dictionary object with the given contents (\<open>{}\<close> and \<open>dict(d)\<close>).\<close>

definition new_dict :: "(string, pyfloat) pydict \<Rightarrow> state \<Rightarrow> addr \<times> state" where
  "new_dict d s =
     (next_free s, s\<lparr>heap := (heap s)(next_free s := d), next_free := next_free s + 1\<rparr>)"

text \<open>The marks of the session being entered.\<close>

definition current_marks :: "state \<Rightarrow> (string, pyfloat) pydict" where
  "current_marks s = heap s (current_student_marks s)"

text \<open>
  What an operation reports.  The program shows a message box and returns; each error
  below stands for one of these boxes:
  \<^item> \<open>EmptyName\<close>: ``Please enter the student's name first.''
  \<^item> \<open>NoActiveSession\<close>: ``Please click '1. Start New Student / Confirm Name' first.'' in
    \<open>add_module_mark\<close>, ``No student session started.'' in \<open>finalize_student\<close>, and the
    warning ``Incomplete Data'' in \<open>view_live_report\<close>
  \<^item> \<open>EmptyField\<close>: ``Module name and Mark cannot be empty.''
  \<^item> \<open>NotNumeric\<close>: ``Mark must be a numeric value.''
  \<^item> \<open>OutOfRange\<close>: ``Mark must be between 0 and 100.''
  \<^item> \<open>NoMarks\<close>: ``Please add at least one module mark.''
\<close>

datatype error = EmptyName | NoActiveSession | EmptyField | NotNumeric | OutOfRange | NoMarks

text \<open>
  What a successful \<open>add_module_mark\<close> shows: the mark it replaced, when the warning
  ``Mark overwritten'' is raised, and the count and names of the modules on the two labels.
\<close>

record mark_added =
  overwritten :: "pyfloat option"
  module_count :: nat
  module_names :: "string list"

definition clear_all_fields :: "state \<Rightarrow> state" where
  "clear_all_fields s =
     (let (a, s1) = new_dict [] s
      in s1\<lparr>current_student_marks := a, current_student_name := []\<rparr>)"

text \<open>
  \<open>start_new_student_session\<close>; the argument is the text of the name field, the result the
  name and the module count of the status label.
\<close>

definition start_new_student_session :: "string \<Rightarrow> state \<Rightarrow> (error + string \<times> nat) \<times> state" where
  "start_new_student_session txtName s =
     (let name = strip txtName
      in if name = [] then (Inl EmptyName, s)
         else (let s1 = (if name \<noteq> current_student_name s
                         then (let (a, s') = new_dict [] s in s'\<lparr>current_student_marks := a\<rparr>)
                         else s);
                   s2 = s1\<lparr>current_student_name := name\<rparr>
               in (Inr (name, length (current_marks s2)), s2)))"

text \<open>\<open>add_module_mark\<close>; the arguments are the texts of the module and mark fields.\<close>

definition add_module_mark :: "string \<Rightarrow> string \<Rightarrow> state \<Rightarrow> (error + mark_added) \<times> state" where
  "add_module_mark txtModule txtMark s =
     (if current_student_name s = [] then (Inl NoActiveSession, s)
      else (let module = strip txtModule;
                mark_input = strip txtMark
            in if module = [] \<or> mark_input = [] then (Inl EmptyField, s)
               else (case float_of_str mark_input of
                       None \<Rightarrow> (Inl NotNumeric, s)
                     | Some mark \<Rightarrow>
                         if \<not> (fle (Fin 0) mark \<and> fle mark (Fin 100)) then (Inl OutOfRange, s)
                         else (let d = current_marks s;
                                   d' = dict_setitem d module mark;
                                   s' = s\<lparr>heap := (heap s)(current_student_marks s := d')\<rparr>
                               in (Inr \<lparr>overwritten = dict_get d module,
                                        module_count = length d',
                                        module_names = dict_keys d'\<rparr>, s')))))"

text \<open>\<open>finalize_student\<close>; the result is the name and the record saved under it.\<close>

definition finalize_student :: "state \<Rightarrow> (error + string \<times> student_record) \<times> state" where
  "finalize_student s =
     (if current_student_name s = [] then (Inl NoActiveSession, s)
      else if current_marks s = [] then (Inl NoMarks, s)
      else (let avg = calculate_average (current_marks s);
                g = get_grade (Some avg);
                (a, s1) = new_dict (current_marks s) s;
                r = \<lparr>marks = a, average = avg, grade = g\<rparr>;
                s2 = s1\<lparr>student_records :=
                          dict_setitem (student_records s1) (current_student_name s1) r\<rparr>
            in (Inr (current_student_name s, r), clear_all_fields s2)))"

text \<open>\<open>view_live_report\<close>; the result is the average and the grade of the message.\<close>

definition view_live_report :: "state \<Rightarrow> (error + pyfloat \<times> string) \<times> state" where
  "view_live_report s =
     (if current_student_name s = [] \<or> current_marks s = [] then (Inl NoActiveSession, s)
      else (let avg = calculate_average (current_marks s);
                g = get_grade (Some avg)
            in (Inr (avg, g), s)))"

subsection \<open>Reachable states\<close>

text \<open>The buttons of the window, with the texts of the fields they read.\<close>

datatype action =
    Start string
  | AddMark string string
  | Finalize
  | LiveReport
  | ClearAll

fun step :: "action \<Rightarrow> state \<Rightarrow> state" where
  "step (Start n) s = snd (start_new_student_session n s)"
| "step (AddMark m k) s = snd (add_module_mark m k s)"
| "step Finalize s = snd (finalize_student s)"
| "step LiveReport s = snd (view_live_report s)"
| "step ClearAll s = clear_all_fields s"

definition run :: "action list \<Rightarrow> state \<Rightarrow> state" where
  "run as s = foldl (\<lambda>s a. step a s) s as"


subsection \<open>Properties of states\<close>

text \<open>
  A mark is in range when it is a number between 0 and 100.  \<open>fin_val\<close> reads the number
  of a finite float, and the mean of a list of numbers is their sum divided by their count.
\<close>

definition mark_in_range :: "pyfloat \<Rightarrow> bool" where
  "mark_in_range v = (case v of Fin q \<Rightarrow> 0 \<le> q \<and> q \<le> 100 | _ \<Rightarrow> False)"

fun fin_val :: "pyfloat \<Rightarrow> rat" where
  "fin_val (Fin q) = q"
| "fin_val _ = 0"

definition mean :: "rat list \<Rightarrow> rat" where
  "mean qs = sum_list qs / of_nat (length qs)"

text \<open>
  The three defensive branches of \<open>get_grade\<close>: the average is above 100, it is below 0, or
  the loop over the boundaries runs to its end.
\<close>

definition defensive_branch_taken :: "pyfloat \<Rightarrow> bool" where
  "defensive_branch_taken avg =
     (fgt avg (Fin 100) \<or> flt avg (Fin 0)
      \<or> scan_boundaries avg (sorted_reverse snd GRADE_BOUNDARIES) = None)"

text \<open>
  How far the average of \<open>n\<close> marks between 0 and 100, computed in doubles, can be from
  their mean: each of the \<open>n\<close> sums and the quotient is rounded once.
\<close>

definition rounding_bound :: "nat \<Rightarrow> rat" where
  "rounding_bound n = 100 * (of_nat n + 1) / 2 ^ 53"

text \<open>
  What is expected of a saved record: a name, at least one mark, every mark in range, the
  average the one that \<open>calculate_average\<close> gives for the marks, the grade the one of the
  average.  When the marks are fewer than \<open>2 ^ 53 / 100\<close> (about \<open>9 * 10 ^ 13\<close>), moreover,
  the average is in range and within the rounding bound of the mean of the marks, and the
  grade is one of the five letters, computed by none of the defensive branches.
\<close>

definition record_ok :: "state \<Rightarrow> string \<times> student_record \<Rightarrow> bool" where
  "record_ok s = (\<lambda>(n, r).
     n \<noteq> []
     \<and> heap s (marks r) \<noteq> []
     \<and> list_all mark_in_range (dict_values (heap s (marks r)))
     \<and> average r = calculate_average (heap s (marks r))
     \<and> grade r = get_grade (Some (average r))
     \<and> (100 * length (heap s (marks r)) < 2 ^ 53 \<longrightarrow>
          mark_in_range (average r)
          \<and> \<bar>fin_val (average r) - mean (map fin_val (dict_values (heap s (marks r))))\<bar>
              \<le> rounding_bound (length (heap s (marks r)))
          \<and> grade r \<in> set [''A'', ''B'', ''C'', ''D'', ''F'']
          \<and> \<not> defensive_branch_taken (average r)))"

definition roster_ok :: "state \<Rightarrow> bool" where
  "roster_ok s = list_all (record_ok s) (student_records s)"

text \<open>
  The heap is in order when the addresses in use have been handed out and no saved record
  shares its dictionary with the session being entered.
\<close>

definition heap_ok :: "state \<Rightarrow> bool" where
  "heap_ok s =
     (current_student_marks s < next_free s
      \<and> list_all (\<lambda>(n, r). marks r < next_free s \<and> marks r \<noteq> current_student_marks s)
           (student_records s))"

definition session_ok :: "state \<Rightarrow> bool" where
  "session_ok s = list_all mark_in_range (dict_values (current_marks s))"

definition inv :: "state \<Rightarrow> bool" where
  "inv s = (heap_ok s \<and> session_ok s \<and> roster_ok s)"

text \<open>
  The inputs that \<open>add_module_mark\<close> accepts: a module name and a mark that are not blank,
  the mark a number between 0 and 100.
\<close>

definition valid_mark_input :: "string \<Rightarrow> string \<Rightarrow> bool" where
  "valid_mark_input m k =
     (strip m \<noteq> [] \<and> strip k \<noteq> []
      \<and> (case float_of_str (strip k) of
            None \<Rightarrow> False
          | Some v \<Rightarrow> fle (Fin 0) v \<and> fle v (Fin 100)))"

text \<open>A sequence of calls of \<open>add_module_mark\<close>, each with its two texts.\<close>

definition add_marks :: "(string \<times> string) list \<Rightarrow> action list" where
  "add_marks calls = map (\<lambda>(m, k). AddMark m k) calls"

text \<open>The mark given by the last call of a sequence that names the module \<open>n\<close>.\<close>

definition last_written :: "(string \<times> string) list \<Rightarrow> string \<Rightarrow> pyfloat option" where
  "last_written calls n =
     (case find (\<lambda>(m, k). strip m = n) (rev calls) of
        None \<Rightarrow> None
      | Some (m, k) \<Rightarrow> float_of_str (strip k))"

section \<open>Grading: theorems\<close>

lemma sorted_boundaries: "sorted_reverse snd GRADE_BOUNDARIES = GRADE_BOUNDARIES"
  by (simp add: sorted_reverse_def GRADE_BOUNDARIES_def)

lemma get_grade_Fin:
  "get_grade (Some (Fin a)) =
     (if 100 < a then ''A+'' else if a < 0 then ''F'' else if 90 \<le> a then ''A''
      else if 80 \<le> a then ''B'' else if 70 \<le> a then ''C'' else if 60 \<le> a then ''D''
      else ''F'')"
  by (simp add: get_grade_def sorted_boundaries fgt_def fge_def)
     (simp add: GRADE_BOUNDARIES_def fge_def)

lemma get_grade_special:
  "get_grade None = ''N/A''"
  "get_grade (Some PInf) = ''A+''"
  "get_grade (Some NInf) = ''F''"
  "get_grade (Some NaN) = ''N/A''"
  by (simp_all add: get_grade_def sorted_boundaries fgt_def)
     (simp add: GRADE_BOUNDARIES_def fge_def)

text \<open>
  Claim C1.  \<open>get_grade\<close> is the reference definition of the specification on every input,
  and on the boundary values 0, 59.999, 60, 69.999, 70, 79.999, 80, 89.999, 90 and 100 it
  gives F, F, D, D, C, C, B, B, A and A; 100.5 gives A+, -5 gives F, an absent average N/A.
\<close>

theorem get_grade_reference:
  "get_grade average_score = grade_reference average_score
   \<and> map (\<lambda>a. get_grade (Some (Fin a)))
        [0, 59.999, 60, 69.999, 70, 79.999, 80, 89.999, 90, 100]
       = [''F'', ''F'', ''D'', ''D'', ''C'', ''C'', ''B'', ''B'', ''A'', ''A'']
   \<and> get_grade (Some (Fin 100.5)) = ''A+''
   \<and> get_grade (Some (Fin (- 5))) = ''F''
   \<and> get_grade None = ''N/A''"
proof -
  have "get_grade average_score = grade_reference average_score"
  proof (cases average_score)
    case None
    then show ?thesis by (simp add: get_grade_special grade_reference_def)
  next
    case (Some f)
    then show ?thesis
      by (cases f)
         (simp_all add: get_grade_Fin get_grade_special grade_reference_def
            grade_table_desc_def)
  qed
  moreover have "map (\<lambda>a. get_grade (Some (Fin a)))
        [0, 59.999, 60, 69.999, 70, 79.999, 80, 89.999, 90, 100]
       = [''F'', ''F'', ''D'', ''D'', ''C'', ''C'', ''B'', ''B'', ''A'', ''A'']"
    by (simp add: get_grade_Fin)
  moreover have "get_grade (Some (Fin 100.5)) = ''A+''"
    and "get_grade (Some (Fin (- 5))) = ''F''"
    by (simp_all add: get_grade_Fin)
  ultimately show ?thesis by (simp add: get_grade_special)
qed

lemma scan_in_range:
  assumes "0 \<le> a" and "a \<le> 100"
  shows "scan_boundaries (Fin a) (sorted_reverse snd GRADE_BOUNDARIES) \<noteq> None"
  using assms by (simp add: sorted_boundaries) (simp add: GRADE_BOUNDARIES_def fge_def)

text \<open>
  Claim C9.  For an average between 0 and 100 the loop over the boundaries of
  \<open>GRADE_BOUNDARIES\<close> always finds a grade: some lower bound is at most the average, the
  loop does not run to its end, and \<open>get_grade\<close> does not return ``N/A''.
\<close>

theorem scan_never_falls_through:
  assumes "0 \<le> a" and "a \<le> 100"
  shows "scan_boundaries (Fin a) (sorted_reverse snd GRADE_BOUNDARIES) \<noteq> None
         \<and> get_grade (Some (Fin a)) \<noteq> ''N/A''
         \<and> list_ex (\<lambda>(g, lower). of_int lower \<le> a) GRADE_BOUNDARIES"
proof -
  have "get_grade (Some (Fin a)) \<noteq> ''N/A''"
    by (simp add: get_grade_Fin)
  moreover have "list_ex (\<lambda>(g, lower). of_int lower \<le> a) GRADE_BOUNDARIES"
    using assms(1) by (simp add: GRADE_BOUNDARIES_def)
  ultimately show ?thesis using scan_in_range [OF assms] by simp
qed

theorem scan_never_falls_through_witness:
  "(0::rat) \<le> 59.999 \<and> (59.999::rat) \<le> 100
   \<and> scan_boundaries (Fin 59.999) (sorted_reverse snd GRADE_BOUNDARIES) = Some ''F''
   \<and> get_grade (Some (Fin 59.999)) = ''F''"
  using scan_never_falls_through [of "59.999"]
  by (simp add: sorted_boundaries get_grade_Fin) (simp add: GRADE_BOUNDARIES_def fge_def)



section \<open>Rounding\<close>

text \<open>\<open>ilog2\<close> is the binary exponent: \<open>2 ^ ilog2 a \<le> a < 2 ^ (ilog2 a + 1)\<close>.\<close>

lemma ilog2_lower:
  assumes "0 < a"
  shows "2 powi ilog2 a \<le> a"
proof (cases "1 \<le> a")
  case True
  define n where "n = \<lfloor>a\<rfloor>"
  have n: "0 < n" using True by (simp add: n_def)
  from bitlen_bounds [OF n] have b: "2 ^ nat (bitlen n - 1) \<le> n" by simp
  have k: "0 \<le> bitlen n - 1" using n by (simp add: bitlen_alt_def)
  have "(2::rat) powi (bitlen n - 1) = 2 ^ nat (bitlen n - 1)"
    using k by (simp add: power_int_nonneg_exp)
  also have "\<dots> = of_int (2 ^ nat (bitlen n - 1))" by simp
  also have "\<dots> \<le> of_int n" using b by (simp only: of_int_le_iff)
  also have "\<dots> \<le> a" by (simp add: n_def)
  finally show ?thesis using True by (simp add: ilog2_def n_def)
next
  case False
  define b where "b = 1 / a"
  have b1: "1 < b" using False assms by (simp add: b_def)
  define m where "m = \<lceil>b\<rceil> - 1"
  have m: "0 < m" using b1 by (simp add: m_def)
  from bitlen_bounds [OF m] have "m < 2 ^ nat (bitlen m)" by simp
  then have "m + 1 \<le> 2 ^ nat (bitlen m)" by simp
  then have "(of_int (m + 1) :: rat) \<le> of_int (2 ^ nat (bitlen m))"
    by (simp only: of_int_le_iff)
  moreover have "b \<le> of_int (m + 1)" by (simp add: m_def)
  ultimately have bk: "b \<le> 2 ^ nat (bitlen m)" by simp
  have k: "0 \<le> bitlen m" by (rule bitlen_nonneg)
  have "(2::rat) powi (- bitlen m) = 1 / 2 ^ nat (bitlen m)"
    using k by (simp add: power_int_minus_divide power_int_nonneg_exp)
  also have "\<dots> \<le> 1 / b"
    using bk b1 by (simp add: frac_le)
  also have "\<dots> = a" by (simp add: b_def)
  finally show ?thesis using False by (simp add: ilog2_def m_def b_def)
qed

lemma ilog2_upper:
  assumes "0 < a"
  shows "a < 2 powi (ilog2 a + 1)"
proof (cases "1 \<le> a")
  case True
  define n where "n = \<lfloor>a\<rfloor>"
  have n: "0 < n" using True by (simp add: n_def)
  from bitlen_bounds [OF n] have "n < 2 ^ nat (bitlen n)" by simp
  then have "n + 1 \<le> 2 ^ nat (bitlen n)" by simp
  then have "(of_int (n + 1) :: rat) \<le> of_int (2 ^ nat (bitlen n))"
    by (simp only: of_int_le_iff)
  moreover have "a < of_int (n + 1)" by (simp add: n_def) linarith
  ultimately have "a < 2 ^ nat (bitlen n)" by simp
  moreover have "(2::rat) powi bitlen n = 2 ^ nat (bitlen n)"
    by (simp add: power_int_nonneg_exp bitlen_nonneg)
  ultimately show ?thesis using True by (simp add: ilog2_def n_def)
next
  case False
  define b where "b = 1 / a"
  have b1: "1 < b" using False assms by (simp add: b_def)
  have a: "a = 1 / b" by (simp add: b_def)
  define m where "m = \<lceil>b\<rceil> - 1"
  have m: "0 < m" using b1 by (simp add: m_def)
  from bitlen_bounds [OF m] have p: "2 ^ nat (bitlen m - 1) \<le> m" by simp
  have "(2::rat) ^ nat (bitlen m - 1) = of_int (2 ^ nat (bitlen m - 1))" by simp
  also have "\<dots> \<le> of_int m" using p by (simp only: of_int_le_iff)
  also have "\<dots> < b" by (simp add: m_def) linarith
  finally have kb: "2 ^ nat (bitlen m - 1) < b" .
  define k where "k = bitlen m - 1"
  have k: "0 \<le> k" using m by (simp add: k_def bitlen_alt_def)
  have e: "ilog2 a + 1 = - k" using False by (simp add: ilog2_def m_def b_def k_def)
  have p2: "(2::rat) powi (- k) = 1 / 2 ^ nat k"
    using k by (simp add: power_int_minus_divide power_int_nonneg_exp)
  have "a = 1 / b" by (rule a)
  also have "\<dots> < 1 / 2 ^ nat k"
    using kb by (simp add: frac_less2 k_def)
  finally show ?thesis unfolding e p2 .
qed

text \<open>Rounding to an integer is off by at most a half and does not cross an integer.\<close>

lemma round_half_even_error: "\<bar>of_int (round_half_even x) - x\<bar> \<le> 1 / 2"
proof -
  have "of_int \<lfloor>x\<rfloor> \<le> x" and "x < of_int \<lfloor>x\<rfloor> + 1" by linarith+
  then show ?thesis
    unfolding round_half_even_def Let_def by (auto simp: abs_le_iff)
qed

lemma round_half_even_le:
  assumes "x \<le> of_int N"
  shows "round_half_even x \<le> N"
proof -
  have f: "\<lfloor>x\<rfloor> \<le> N" using assms by (simp add: floor_le_iff)
  show ?thesis
  proof (cases "\<lfloor>x\<rfloor> = N")
    case True
    then have "x = of_int N" using assms by (metis of_int_floor_le order_antisym)
    then show ?thesis by (simp add: round_half_even_def)
  next
    case False
    then have "\<lfloor>x\<rfloor> + 1 \<le> N" using f by simp
    then show ?thesis using f unfolding round_half_even_def Let_def by auto
  qed
qed

lemma round_half_even_ge:
  assumes "of_int N \<le> x"
  shows "N \<le> round_half_even x"
proof -
  have "N \<le> \<lfloor>x\<rfloor>" using assms by (simp add: le_floor_iff)
  then show ?thesis unfolding round_half_even_def Let_def by auto
qed

text \<open>
  Rounding to a double is off by at most half the weight of the last bit, and it does not
  cross an integer below \<open>2 ^ 53\<close>: such an integer is a double.
\<close>

lemma ulp_exponent_cases:
  "ulp_exponent a = ilog2 a - 52 \<and> - 1074 \<le> ilog2 a - 52
   \<or> ulp_exponent a = - 1074 \<and> ilog2 a - 52 < - 1074"
  by (auto simp: ulp_exponent_def max_def)

lemma round_magnitude_nonneg:
  assumes "0 \<le> a"
  shows "0 \<le> round_magnitude a"
proof -
  have "(of_int 0 :: rat) \<le> a / 2 powi ulp_exponent a" using assms by simp
  then have "0 \<le> round_half_even (a / 2 powi ulp_exponent a)"
    by (rule round_half_even_ge)
  then show ?thesis by (simp add: round_magnitude_def)
qed

lemma round_magnitude_error:
  "\<bar>round_magnitude a - a\<bar> \<le> 2 powi ulp_exponent a / 2"
proof -
  define p :: rat where "p = 2 powi ulp_exponent a"
  have p: "0 < p" by (simp add: p_def)
  define m where "m = round_half_even (a / p)"
  have "\<bar>of_int m - a / p\<bar> \<le> 1 / 2"
    unfolding m_def by (rule round_half_even_error)
  then have "\<bar>of_int m - a / p\<bar> * p \<le> 1 / 2 * p"
    using p by (simp only: mult_le_cancel_right_pos)
  moreover have "\<bar>of_int m - a / p\<bar> * p = \<bar>of_int m * p - a\<bar>"
  proof -
    have "\<bar>of_int m - a / p\<bar> * p = \<bar>(of_int m - a / p) * p\<bar>"
      using p by (simp add: abs_mult)
    also have "(of_int m - a / p) * p = of_int m * p - a"
      using p by (simp add: field_simps)
    finally show ?thesis .
  qed
  ultimately have "\<bar>of_int m * p - a\<bar> \<le> p / 2" by simp
  then show ?thesis unfolding round_magnitude_def m_def p_def .
qed

lemma ulp_exponent_small:
  assumes "0 < a" and "a < 2 ^ 53"
  shows "ulp_exponent a \<le> 0"
proof (rule ccontr)
  assume "\<not> ulp_exponent a \<le> 0"
  then have "53 \<le> ilog2 a" by (simp add: ulp_exponent_def max_def split: if_splits)
  then have "(2::rat) powi 53 \<le> 2 powi ilog2 a"
    by (intro power_int_increasing) simp_all
  also have "\<dots> \<le> a" by (rule ilog2_lower [OF assms(1)])
  finally show False using assms(2) by simp
qed

lemma round_magnitude_le_int:
  assumes "0 < a" and "a \<le> of_int K" and "K < 2 ^ 53"
  shows "round_magnitude a \<le> of_int K"
proof -
  define e where "e = ulp_exponent a"
  have "a < 2 ^ 53"
  proof -
    have "(of_int K :: rat) < of_int (2 ^ 53)" using assms(3) by (simp only: of_int_less_iff)
    then show ?thesis using assms(2) by simp
  qed
  then have e: "e \<le> 0" unfolding e_def by (rule ulp_exponent_small [OF assms(1)])
  define n where "n = nat (- e)"
  have p: "(2::rat) powi e = 1 / 2 ^ n"
    using e power_int_minus_divide [of "2::rat" "- e"]
    by (simp add: n_def power_int_nonneg_exp)
  have "a / 2 powi e = a * 2 ^ n" by (simp add: p)
  also have "\<dots> \<le> of_int K * 2 ^ n" using assms(2) by simp
  also have "\<dots> = of_int (K * 2 ^ n)" by simp
  finally have "round_half_even (a / 2 powi e) \<le> K * 2 ^ n"
    by (rule round_half_even_le)
  then have "(of_int (round_half_even (a / 2 powi e)) :: rat) \<le> of_int (K * 2 ^ n)"
    by (simp only: of_int_le_iff)
  then have "of_int (round_half_even (a / 2 powi e)) * (1 / 2 ^ n) \<le> (of_int K :: rat)"
    by (simp add: field_simps)
  then show ?thesis by (simp add: round_magnitude_def e_def [symmetric] p)
qed

lemma round_magnitude_ge_int:
  assumes "0 < a" and "of_int K \<le> a" and "K < 2 ^ 53"
  shows "of_int K \<le> round_magnitude a"
proof (cases "ulp_exponent a \<le> 0")
  case True
  define e where "e = ulp_exponent a"
  define n where "n = nat (- e)"
  have p: "(2::rat) powi e = 1 / 2 ^ n"
    using True power_int_minus_divide [of "2::rat" "- e"]
    by (simp add: n_def e_def power_int_nonneg_exp)
  have "(of_int (K * 2 ^ n) :: rat) = of_int K * 2 ^ n" by simp
  also have "\<dots> \<le> a * 2 ^ n" using assms(2) by simp
  also have "\<dots> = a / 2 powi e" by (simp add: p)
  finally have "K * 2 ^ n \<le> round_half_even (a / 2 powi e)"
    by (rule round_half_even_ge)
  then have "(of_int (K * 2 ^ n) :: rat) \<le> of_int (round_half_even (a / 2 powi e))"
    by (simp only: of_int_le_iff)
  then have "(of_int K :: rat) \<le> of_int (round_half_even (a / 2 powi e)) * (1 / 2 ^ n)"
    by (simp add: field_simps)
  then show ?thesis by (simp add: round_magnitude_def e_def [symmetric] p)
next
  case False
  define e where "e = ulp_exponent a"
  have e: "1 \<le> e" and l: "ilog2 a = e + 52"
    using False by (auto simp: e_def ulp_exponent_def max_def split: if_splits)
  define p :: rat where "p = 2 powi e"
  have p: "0 < p" by (simp add: p_def)
  have p2: "2 \<le> p"
  proof -
    have "(2::rat) powi 1 \<le> 2 powi e" using e by (intro power_int_increasing) simp_all
    then show ?thesis by (simp add: p_def)
  qed
  have "(2::rat) powi (e + 52) = p * 2 ^ 52"
    by (simp add: p_def power_int_add)
  then have "p * 2 ^ 52 \<le> a" using ilog2_lower [OF assms(1)] by (simp add: l)
  then have "(of_int (2 ^ 52) :: rat) \<le> a / p" using p by (simp add: field_simps)
  then have "2 ^ 52 \<le> round_half_even (a / p)" by (rule round_half_even_ge)
  then have "(of_int (2 ^ 52) :: rat) \<le> of_int (round_half_even (a / p))"
    by (simp only: of_int_le_iff)
  then have m: "(of_int (2 ^ 52) :: rat) * p \<le> of_int (round_half_even (a / p)) * p"
    using p by (simp only: mult_le_cancel_right_pos)
  have "(of_int K :: rat) < of_int (2 ^ 53)" using assms(3) by (simp only: of_int_less_iff)
  also have "\<dots> = of_int (2 ^ 52) * 2" by simp
  also have "\<dots> \<le> of_int (2 ^ 52) * p" using p2 by (intro mult_left_mono) simp_all
  also note m
  finally have "of_int K \<le> of_int (round_half_even (a / p)) * p" by (rule less_imp_le)
  then show ?thesis unfolding round_magnitude_def e_def [symmetric] p_def .
qed

lemma ulp_bound:
  assumes "0 < a" and "a \<le> M" and "1 \<le> M"
  shows "2 powi ulp_exponent a / 2 \<le> M / 2 ^ 53"
proof -
  from ulp_exponent_cases [of a] show ?thesis
  proof
    assume c: "ulp_exponent a = ilog2 a - 52 \<and> - 1074 \<le> ilog2 a - 52"
    have "(2::rat) powi (ilog2 a - 52) = 2 powi ilog2 a / 2 ^ 52"
      by (simp add: power_int_diff)
    also have "\<dots> \<le> M / 2 ^ 52"
      using ilog2_lower [OF assms(1)] assms(2) by (simp add: divide_right_mono)
    finally show ?thesis using c by simp
  next
    assume c: "ulp_exponent a = - 1074 \<and> ilog2 a - 52 < - 1074"
    have "(2::rat) powi (- 1074) \<le> 2 powi (- 52)"
      by (intro power_int_increasing) simp_all
    also have "\<dots> = 1 / 2 ^ 52" by (simp add: power_int_minus_divide)
    also have "\<dots> \<le> M / 2 ^ 52" using assms(3) by (simp add: divide_right_mono)
    finally show ?thesis using c by simp
  qed
qed

lemma round_double_range:
  assumes "0 \<le> q" and "q \<le> of_int K" and "K < 2 ^ 53" and "1 \<le> K"
  shows "\<exists>r. round_double q = Fin r \<and> 0 \<le> r \<and> r \<le> of_int K
           \<and> \<bar>r - q\<bar> \<le> of_int K / 2 ^ 53"
proof (cases "q = 0")
  case True
  then show ?thesis using assms(4) by (simp add: round_double_def)
next
  case False
  then have q: "0 < q" using assms(1) by simp
  define v where "v = round_magnitude q"
  have rd: "round_double q = (if 2 powi 1024 \<le> v then PInf else Fin v)"
    using q by (simp add: round_double_def v_def Let_def)
  have le: "v \<le> of_int K"
    unfolding v_def by (rule round_magnitude_le_int [OF q assms(2,3)])
  have ge: "0 \<le> v" unfolding v_def using assms(1) by (rule round_magnitude_nonneg)
  have "(of_int K :: rat) < of_int (2 ^ 53)" using assms(3) by (simp only: of_int_less_iff)
  also have "\<dots> \<le> 2 powi 1024" by simp
  finally have fin: "\<not> 2 powi 1024 \<le> v" using le by simp
  have "\<bar>v - q\<bar> \<le> 2 powi ulp_exponent q / 2"
    unfolding v_def by (rule round_magnitude_error)
  also have "\<dots> \<le> of_int K / 2 ^ 53"
    using assms(4) by (intro ulp_bound [OF q assms(2)]) simp
  finally have "\<bar>v - q\<bar> \<le> of_int K / 2 ^ 53" .
  then show ?thesis
    using le ge fin by (simp add: rd)
qed

lemma round_double_int:
  assumes "\<bar>n\<bar> < 2 ^ 53"
  shows "round_double (of_int n) = Fin (of_int n)"
proof (cases "n = 0")
  case True
  then show ?thesis by (simp add: round_double_def)
next
  case False
  define a :: rat where "a = of_int \<bar>n\<bar>"
  have a: "0 < a" "a \<le> of_int \<bar>n\<bar>" "of_int \<bar>n\<bar> \<le> a" using False by (simp_all add: a_def)
  have "round_magnitude a \<le> of_int \<bar>n\<bar>"
    by (rule round_magnitude_le_int [OF a(1,2) assms])
  moreover have "of_int \<bar>n\<bar> \<le> round_magnitude a"
    by (rule round_magnitude_ge_int [OF a(1,3) assms])
  ultimately have v: "round_magnitude a = of_int \<bar>n\<bar>" by simp
  have "(of_int \<bar>n\<bar> :: rat) < of_int (2 ^ 53)" using assms by (simp only: of_int_less_iff)
  also have "\<dots> \<le> 2 powi 1024" by simp
  finally have fin: "\<not> 2 powi 1024 \<le> (of_int \<bar>n\<bar> :: rat)" by simp
  have abs: "\<bar>of_int n :: rat\<bar> = a" by (simp add: a_def)
  show ?thesis
    using False fin unfolding round_double_def abs Let_def v
    by (auto simp: abs_if)
qed

text \<open>The integers below \<open>2 ^ 53\<close> are doubles: rounding leaves them as they are.\<close>

lemma round_double_numeral:
  "numeral k < (2::int) ^ 53 \<Longrightarrow> round_double (numeral k) = Fin (numeral k)"
  using round_double_int [of "numeral k"] by simp

lemma round_double_neg_numeral:
  "numeral k < (2::int) ^ 53 \<Longrightarrow> round_double (- numeral k) = Fin (- numeral k)"
  using round_double_int [of "- numeral k"] by simp

lemma round_double_0: "round_double 0 = Fin 0"
  by (simp add: round_double_def)

lemma round_double_1: "round_double 1 = Fin 1"
  using round_double_int [of 1] by simp

lemma round_double_neg_1: "round_double (- 1) = Fin (- 1)"
  using round_double_int [of "- 1"] by simp

lemma round_double_of_nat:
  "n < 2 ^ 53 \<Longrightarrow> round_double (of_nat n) = Fin (of_nat n)"
  using round_double_int [of "int n"] by simp

lemmas round_double_ints =
  round_double_0 round_double_1 round_double_neg_1 round_double_numeral
  round_double_neg_numeral

section \<open>The average: theorems\<close>

lemma mark_in_range_Fin [simp]: "mark_in_range (Fin q) = (0 \<le> q \<and> q \<le> 100)"
  by (simp add: mark_in_range_def)

lemma mark_in_range_iff: "mark_in_range v = (fle (Fin 0) v \<and> fle v (Fin 100))"
  by (cases v) (simp_all add: mark_in_range_def)

lemma in_range_values:
  "list_all mark_in_range vs \<Longrightarrow> vs = map Fin (map fin_val vs)"
  by (induction vs) (auto simp: mark_in_range_def split: pyfloat.splits)

lemma in_range_fin_vals:
  "list_all mark_in_range vs \<Longrightarrow> list_all (\<lambda>q. 0 \<le> q \<and> q \<le> 100) (map fin_val vs)"
  by (induction vs) (auto simp: mark_in_range_def split: pyfloat.splits)

text \<open>
  The sum of marks in range, added one by one to a number that is at most \<open>K\<close>: every
  partial sum is a number, bounded by an integer below \<open>2 ^ 53\<close>, and each addition is off
  by at most \<open>M / 2 ^ 53\<close>.
\<close>

lemma foldl_fadd_range:
  assumes "list_all (\<lambda>q. 0 \<le> q \<and> q \<le> 100) vs"
    and "0 \<le> c" and "c \<le> of_nat K"
    and "K + 100 * length vs \<le> M" and "M < 2 ^ 53" and "1 \<le> M"
  shows "\<exists>r. foldl fadd (Fin c) (map Fin vs) = Fin r \<and> 0 \<le> r
           \<and> r \<le> of_nat (K + 100 * length vs)
           \<and> \<bar>r - (c + sum_list vs)\<bar> \<le> of_nat (length vs) * of_nat M / 2 ^ 53"
  using assms
proof (induction vs arbitrary: c K)
  case Nil
  then show ?case by simp
next
  case (Cons v vs)
  have v: "0 \<le> v" "v \<le> 100" and vs: "list_all (\<lambda>q. 0 \<le> q \<and> q \<le> 100) vs"
    using Cons.prems(1) by simp_all
  define K' where "K' = K + 100"
  have K'M: "K' \<le> M" and K'1: "1 \<le> K'" using Cons.prems(4) by (simp_all add: K'_def)
  have K'53: "int K' < 2 ^ 53"
  proof -
    have "int K' \<le> int M" using K'M by simp
    also have "\<dots> < int (2 ^ 53)" using Cons.prems(5) by (simp only: of_nat_less_iff)
    finally show ?thesis by simp
  qed
  have s0: "0 \<le> c + v" using Cons.prems(2) v by simp
  have s1: "c + v \<le> of_int (int K')" using Cons.prems(3) v by (simp add: K'_def)
  from round_double_range [OF s0 s1 K'53] K'1
  obtain r1 where r1: "round_double (c + v) = Fin r1" "0 \<le> r1" "r1 \<le> of_int (int K')"
    "\<bar>r1 - (c + v)\<bar> \<le> of_int (int K') / 2 ^ 53"
    by auto
  have e1: "\<bar>r1 - (c + v)\<bar> \<le> of_nat M / 2 ^ 53"
  proof -
    have "(of_int (int K') :: rat) / 2 ^ 53 \<le> of_nat M / 2 ^ 53"
      using K'M by (simp add: divide_right_mono)
    then show ?thesis using r1(4) by simp
  qed
  have "K' + 100 * length vs \<le> M" using Cons.prems(4) by (simp add: K'_def)
  from Cons.IH [OF vs r1(2) _ this Cons.prems(5,6)] r1(3)
  obtain r where r: "foldl fadd (Fin r1) (map Fin vs) = Fin r" "0 \<le> r"
    "r \<le> of_nat (K' + 100 * length vs)"
    "\<bar>r - (r1 + sum_list vs)\<bar> \<le> of_nat (length vs) * of_nat M / 2 ^ 53"
    by auto
  have "\<bar>r - (c + sum_list (v # vs))\<bar> \<le> \<bar>r - (r1 + sum_list vs)\<bar> + \<bar>r1 - (c + v)\<bar>"
    by simp
  also have "\<dots> \<le> of_nat (length vs) * of_nat M / 2 ^ 53 + of_nat M / 2 ^ 53"
    using r(4) e1 by simp
  also have "\<dots> = of_nat (length (v # vs)) * of_nat M / 2 ^ 53"
    by (simp add: field_simps)
  finally have "\<bar>r - (c + sum_list (v # vs))\<bar> \<le> of_nat (length (v # vs)) * of_nat M / 2 ^ 53" .
  moreover have "r \<le> of_nat (K + 100 * length (v # vs))"
    using r(3) by (simp add: K'_def)
  moreover have "foldl fadd (Fin c) (map Fin (v # vs)) = Fin r"
    by (simp add: r1(1) r(1))
  ultimately show ?case using r(2) by blast
qed

text \<open>
  The average of a non-empty dictionary of fewer than \<open>2 ^ 53 / 100\<close> marks in range is a
  number in range, within the rounding bound of the mean.
\<close>

lemma calculate_average_in_range:
  assumes "list_all mark_in_range (dict_values d)" and "d \<noteq> []"
    and "100 * length d < 2 ^ 53"
  shows "\<exists>r. calculate_average d = Fin r \<and> 0 \<le> r \<and> r \<le> 100
           \<and> \<bar>r - mean (map fin_val (dict_values d))\<bar> \<le> rounding_bound (length d)"
proof -
  let ?qs = "map fin_val (dict_values d)"
  define n where "n = length d"
  define M where "M = 100 * n"
  have n: "0 < n" using assms(2) by (simp add: n_def)
  have len: "length ?qs = n" by (simp add: dict_values_def n_def)
  have v: "dict_values d = map Fin ?qs" by (rule in_range_values [OF assms(1)])
  have qs: "list_all (\<lambda>q. 0 \<le> q \<and> q \<le> 100) ?qs" by (rule in_range_fin_vals [OF assms(1)])
  have M53: "M < 2 ^ 53" using assms(3) by (simp add: M_def n_def)
  have M1: "1 \<le> M" using n by (simp add: M_def)
  have "0 + 100 * length ?qs \<le> M" unfolding len M_def by simp
  then have "\<exists>r. foldl fadd (Fin 0) (map Fin ?qs) = Fin r \<and> 0 \<le> r
           \<and> r \<le> of_nat (0 + 100 * length ?qs)
           \<and> \<bar>r - (0 + sum_list ?qs)\<bar> \<le> of_nat (length ?qs) * of_nat M / 2 ^ 53"
    using qs M53 M1 by (intro foldl_fadd_range) simp_all
  then obtain t where t0: "foldl fadd (Fin 0) (map Fin ?qs) = Fin t \<and> 0 \<le> t
           \<and> t \<le> of_nat (0 + 100 * length ?qs)
           \<and> \<bar>t - (0 + sum_list ?qs)\<bar> \<le> of_nat (length ?qs) * of_nat M / 2 ^ 53"
    by blast
  have t: "foldl fadd (Fin 0) (map Fin ?qs) = Fin t" "0 \<le> t"
    "t \<le> of_nat (100 * n)" "\<bar>t - sum_list ?qs\<bar> \<le> of_nat n * of_nat M / 2 ^ 53"
    using t0 unfolding len by simp_all
  have total: "foldl fadd (Fin 0) (dict_values d) = Fin t"
    using t(1) unfolding v [symmetric] .
  have n53: "n < 2 ^ 53" using assms(3) by (simp add: n_def)
  have conv: "round_double (of_nat n) = Fin (of_nat n)"
    by (rule round_double_of_nat [OF n53])
  have avg: "calculate_average d = round_double (t / of_nat n)"
    using assms(2) conv by (simp add: calculate_average_def total n_def)
  have q0: "0 \<le> t / of_nat n" using t(2) by simp
  have q1: "t / of_nat n \<le> of_int 100"
    using t(3) n by (simp add: pos_divide_le_eq)
  from round_double_range [OF q0 q1]
  obtain r where r: "round_double (t / of_nat n) = Fin r" "0 \<le> r" "r \<le> 100"
    "\<bar>r - t / of_nat n\<bar> \<le> 100 / 2 ^ 53"
    by auto
  have "\<bar>t / of_nat n - sum_list ?qs / of_nat n\<bar> = \<bar>t - sum_list ?qs\<bar> / of_nat n"
    by (simp add: diff_divide_distrib [symmetric])
  also have "\<dots> \<le> (of_nat n * of_nat M / 2 ^ 53) / of_nat n"
    using t(4) by (rule divide_right_mono) simp
  also have "\<dots> = 100 * of_nat n / 2 ^ 53" using n by (simp add: M_def)
  finally have e: "\<bar>t / of_nat n - sum_list ?qs / of_nat n\<bar> \<le> 100 * of_nat n / 2 ^ 53" .
  have m: "mean ?qs = sum_list ?qs / of_nat n" unfolding mean_def len ..
  have "\<bar>r - mean ?qs\<bar> \<le> \<bar>r - t / of_nat n\<bar> + \<bar>t / of_nat n - sum_list ?qs / of_nat n\<bar>"
    unfolding m by linarith
  also have "\<dots> \<le> 100 / 2 ^ 53 + 100 * of_nat n / 2 ^ 53"
    using r(4) e by simp
  also have "\<dots> = rounding_bound n" by (simp add: rounding_bound_def field_simps)
  finally have "\<bar>r - mean ?qs\<bar> \<le> rounding_bound (length d)" by (simp add: n_def)
  then show ?thesis using r(1,2,3) avg by simp
qed

text \<open>Sums of whole marks are exact: only the quotient is rounded.\<close>

lemma foldl_fadd_ints:
  assumes "list_all (\<lambda>v. 0 \<le> v \<and> v \<le> 100) vs" and "0 \<le> c"
    and "c + 100 * int (length vs) < 2 ^ 53"
  shows "foldl fadd (Fin (of_int c)) (map (\<lambda>v. Fin (of_int v)) vs) = Fin (of_int (c + sum_list vs))"
  using assms
proof (induction vs arbitrary: c)
  case Nil
  then show ?case by simp
next
  case (Cons v vs)
  have v: "0 \<le> v" "v \<le> 100" and vs: "list_all (\<lambda>v. 0 \<le> v \<and> v \<le> 100) vs"
    using Cons.prems(1) by simp_all
  have "\<bar>c + v\<bar> < 2 ^ 53" using Cons.prems(2,3) v by simp
  then have "round_double (of_int (c + v)) = Fin (of_int (c + v))"
    by (rule round_double_int)
  then have step: "round_double (of_int c + of_int v) = Fin (of_int c + of_int v)" by simp
  have "(c + v) + 100 * int (length vs) < 2 ^ 53" using Cons.prems(3) v by simp
  from Cons.IH [OF vs _ this] Cons.prems(2) v
  have "foldl fadd (Fin (of_int (c + v))) (map (\<lambda>v. Fin (of_int v)) vs)
      = Fin (of_int (c + v + sum_list vs))" by simp
  then show ?case by (simp add: step add.assoc)
qed

lemma calculate_average_ints:
  assumes "ns \<noteq> []" and "list_all (\<lambda>(m, v). 0 \<le> v \<and> v \<le> 100) ns"
    and "100 * length ns < 2 ^ 53"
  shows "calculate_average (map (\<lambda>(m, v). (m, Fin (of_int v))) ns) =
           round_double (of_int (sum_list (map snd ns)) / of_nat (length ns))"
proof -
  let ?vs = "map snd ns"
  have vals: "dict_values (map (\<lambda>(m, v). (m, Fin (of_int v))) ns) = map (\<lambda>v. Fin (of_int v)) ?vs"
    by (induction ns) (auto simp: dict_values_def)
  have r: "list_all (\<lambda>v. 0 \<le> v \<and> v \<le> 100) ?vs"
    using assms(2) by (induction ns) auto
  have "int (100 * length ns) < int (2 ^ 53)" using assms(3) by (simp only: of_nat_less_iff)
  then have b: "0 + 100 * int (length ?vs) < 2 ^ 53" by simp
  have "foldl fadd (Fin (of_int 0)) (map (\<lambda>v. Fin (of_int v)) ?vs) = Fin (of_int (0 + sum_list ?vs))"
    by (rule foldl_fadd_ints [OF r _ b]) simp
  then have total: "foldl fadd (Fin 0) (map (\<lambda>v. Fin (of_int v)) ?vs) = Fin (of_int (sum_list ?vs))"
    by simp
  have "length ns < 2 ^ 53" using assms(3) by simp
  then have conv: "round_double (of_nat (length ns)) = Fin (of_nat (length ns))"
    by (rule round_double_of_nat)
  show ?thesis
    unfolding calculate_average_def vals total using assms(1) conv by simp
qed

text \<open>
  The average of the marks 1, 0 and 0 is the double nearest to a third, which Python prints
  as \<open>0.3333333333333333\<close>; it is not their mean.
\<close>

theorem calculate_average_not_exact_counterexample:
  "calculate_average [(''a'', Fin 1), (''b'', Fin 0), (''c'', Fin 0)] =
     Fin (6004799503160661 / 18014398509481984)
   \<and> mean [1, 0, 0] = 1 / 3
   \<and> (6004799503160661 / 18014398509481984 :: rat) \<noteq> 1 / 3"
proof -
  have "round_double (1 / 3) = Fin (6004799503160661 / 18014398509481984)"
    by code_simp
  then have "calculate_average [(''a'', Fin 1), (''b'', Fin 0), (''c'', Fin 0)] =
     Fin (6004799503160661 / 18014398509481984)"
    by (simp add: calculate_average_def dict_values_def round_double_ints)
  then show ?thesis by (simp add: mean_def)
qed

text \<open>
  Claim C2, as amended.  The average of an empty dictionary is 0.0.  The average of \<open>n\<close>
  marks between 0 and 100, for \<open>n\<close> below \<open>2 ^ 53 / 100\<close>, is a number between 0 and 100
  that differs from the mean of the marks by at most \<open>100 * (n + 1) / 2 ^ 53\<close>, the
  rounding of the \<open>n\<close> sums and of the quotient; when the marks are whole numbers it is the
  mean itself, rounded once to a double.  No other rounding is applied.  The average of
  \<open>{m: 100}\<close> is 100 and that of \<open>{a: 80, b: 60}\<close> is 70.
\<close>

theorem calculate_average_rounded_mean:
  "calculate_average [] = Fin 0
   \<and> (d \<noteq> [] \<and> list_all mark_in_range (dict_values d) \<and> 100 * length d < 2 ^ 53 \<longrightarrow>
        (\<exists>r. calculate_average d = Fin r \<and> 0 \<le> r \<and> r \<le> 100
             \<and> \<bar>r - mean (map fin_val (dict_values d))\<bar> \<le> rounding_bound (length d)))
   \<and> (ns \<noteq> [] \<and> list_all (\<lambda>(m, v). 0 \<le> v \<and> v \<le> 100) ns \<and> 100 * length ns < 2 ^ 53 \<longrightarrow>
        calculate_average (map (\<lambda>(m, v). (m, Fin (of_int v))) ns) =
          round_double (of_int (sum_list (map snd ns)) / of_nat (length ns)))
   \<and> calculate_average [(m, Fin 100)] = Fin 100
   \<and> calculate_average [(''a'', Fin 80), (''b'', Fin 60)] = Fin 70"
proof (intro conjI impI)
  show "calculate_average [] = Fin 0" by (simp add: calculate_average_def)
next
  assume "d \<noteq> [] \<and> list_all mark_in_range (dict_values d) \<and> 100 * length d < 2 ^ 53"
  then show "\<exists>r. calculate_average d = Fin r \<and> 0 \<le> r \<and> r \<le> 100
             \<and> \<bar>r - mean (map fin_val (dict_values d))\<bar> \<le> rounding_bound (length d)"
    by (intro calculate_average_in_range) simp_all
next
  assume "ns \<noteq> [] \<and> list_all (\<lambda>(m, v). 0 \<le> v \<and> v \<le> 100) ns \<and> 100 * length ns < 2 ^ 53"
  then show "calculate_average (map (\<lambda>(m, v). (m, Fin (of_int v))) ns) =
          round_double (of_int (sum_list (map snd ns)) / of_nat (length ns))"
    by (intro calculate_average_ints) simp_all
next
  show "calculate_average [(m, Fin 100)] = Fin 100"
    by (simp add: calculate_average_def dict_values_def round_double_ints)
next
  show "calculate_average [(''a'', Fin 80), (''b'', Fin 60)] = Fin 70"
    by (simp add: calculate_average_def dict_values_def round_double_ints)
qed

theorem calculate_average_rounded_mean_witness:
  "[(''a'', Fin 80), (''b'', Fin 60)] \<noteq> []
   \<and> list_all mark_in_range (dict_values [(''a'', Fin 80), (''b'', Fin 60)])
   \<and> 100 * length [(''a'', Fin 80), (''b'', Fin 60)] < (2::nat) ^ 53
   \<and> calculate_average [(''a'', Fin 80), (''b'', Fin 60)] = Fin 70
   \<and> \<bar>70 - mean (map fin_val (dict_values [(''a'', Fin 80), (''b'', Fin 60)]))\<bar>
        \<le> rounding_bound 2
   \<and> calculate_average [(''a'', Fin 1), (''b'', Fin 0), (''c'', Fin 0)] = round_double (1 / 3)"
proof -
  let ?d = "[(''a'', Fin 80), (''b'', Fin 60)]"
  let ?ns = "[(''a'', 1), (''b'', 0), (''c'', 0 :: int)]"
  have h: "?d \<noteq> [] \<and> list_all mark_in_range (dict_values ?d) \<and> 100 * length ?d < 2 ^ 53"
    by (simp add: dict_values_def)
  have g: "?ns \<noteq> [] \<and> list_all (\<lambda>(m, v). 0 \<le> v \<and> v \<le> 100) ?ns \<and> 100 * length ?ns < 2 ^ 53"
    by simp
  from calculate_average_rounded_mean [of ?d ?ns] h g
  have a: "\<exists>r. calculate_average ?d = Fin r \<and> 0 \<le> r \<and> r \<le> 100
             \<and> \<bar>r - mean (map fin_val (dict_values ?d))\<bar> \<le> rounding_bound (length ?d)"
    and b: "calculate_average (map (\<lambda>(m, v). (m, Fin (of_int v))) ?ns) =
          round_double (of_int (sum_list (map snd ?ns)) / of_nat (length ?ns))"
    and c: "calculate_average ?d = Fin 70"
    by blast+
  from a c have "\<bar>70 - mean (map fin_val (dict_values ?d))\<bar> \<le> rounding_bound 2"
    by (auto simp: numeral_2_eq_2)
  moreover from b have "calculate_average [(''a'', Fin 1), (''b'', Fin 0), (''c'', Fin 0)] = round_double (1 / 3)"
    by simp
  ultimately show ?thesis using h c by simp
qed

section \<open>The session store: theorems\<close>

subsection \<open>Grades of averages in range\<close>

lemma grade_in_range:
  assumes "mark_in_range v"
  shows "get_grade (Some v) \<in> set [''A'', ''B'', ''C'', ''D'', ''F'']"
    and "\<not> defensive_branch_taken v"
proof -
  from assms obtain q where v: "v = Fin q" and q: "0 \<le> q" "q \<le> 100"
    by (cases v) (simp_all add: mark_in_range_def)
  show "get_grade (Some v) \<in> set [''A'', ''B'', ''C'', ''D'', ''F'']"
    using q by (simp add: v get_grade_Fin)
  show "\<not> defensive_branch_taken v"
    using q scan_in_range [of q]
    by (simp add: v defensive_branch_taken_def fgt_def)
qed

subsection \<open>Dictionaries\<close>

lemma dict_setitem_nonempty [simp]: "dict_setitem d k v \<noteq> []"
  by (cases d) (auto split: if_splits)

lemma list_all_dict_setitem:
  "list_all P d \<Longrightarrow> P (k, v) \<Longrightarrow> list_all P (dict_setitem d k v)"
  by (induction d) auto

lemma dict_keys_setitem:
  "dict_keys (dict_setitem d k v) =
     (if k \<in> set (dict_keys d) then dict_keys d else dict_keys d @ [k])"
  by (induction d) (force simp: dict_keys_def)+

lemma length_dict_setitem:
  "length (dict_setitem d k v) =
     (if k \<in> set (dict_keys d) then length d else Suc (length d))"
  by (induction d) (force simp: dict_keys_def)+

lemma dict_get_setitem:
  "dict_get (dict_setitem d k v) k' = (if k' = k then Some v else dict_get d k')"
  by (induction d) (auto simp: dict_get_def)

lemma dict_get_None: "dict_get d k = None \<longleftrightarrow> k \<notin> set (dict_keys d)"
  by (simp add: dict_get_def dict_keys_def map_of_eq_None_iff)

lemma values_dict_setitem:
  "list_all P (dict_values d) \<Longrightarrow> P v \<Longrightarrow> list_all P (dict_values (dict_setitem d k v))"
  by (induction d) (auto simp: dict_values_def)

lemma distinct_dict_setitem:
  "distinct (dict_keys d) \<Longrightarrow> distinct (dict_keys (dict_setitem d k v))"
  by (simp add: dict_keys_setitem)

lemma set_keys_dict_setitem:
  "set (dict_keys (dict_setitem d k v)) = insert k (set (dict_keys d))"
  by (auto simp: dict_keys_setitem)

subsection \<open>The invariant of the reachable states\<close>

text \<open>
  An operation that leaves the dictionaries of the saved records alone leaves the records
  in order.
\<close>

lemma roster_frame:
  assumes "heap_ok s" and "roster_ok s"
    and "\<And>a. a < next_free s \<Longrightarrow> a \<noteq> current_student_marks s \<Longrightarrow> heap s' a = heap s a"
  shows "list_all (record_ok s') (student_records s)"
proof -
  have "record_ok s' x" if "x \<in> set (student_records s)" for x
  proof -
    obtain n r where x: "x = (n, r)" by (cases x)
    from that assms(1) have "marks r < next_free s" and "marks r \<noteq> current_student_marks s"
      by (auto simp: heap_ok_def list_all_iff x)
    then have "heap s' (marks r) = heap s (marks r)" by (rule assms(3))
    then have "record_ok s' (n, r) = record_ok s (n, r)"
      by (simp only: record_ok_def prod.case)
    moreover from that assms(2) have "record_ok s (n, r)"
      by (simp add: roster_ok_def list_all_iff x)
    ultimately show ?thesis by (simp only: x)
  qed
  then show ?thesis by (simp add: list_all_iff)
qed

lemma run_snoc: "run (as @ [a]) s = step a (run as s)"
  by (simp add: run_def)

lemma run_Nil: "run [] s = s"
  by (simp add: run_def)

lemma run_Cons: "run (a # as) s = run as (step a s)"
  by (simp add: run_def)

lemma inv_initial: "inv initial_state"
  by (simp add: inv_def heap_ok_def session_ok_def roster_ok_def initial_state_def
      current_marks_def dict_values_def)

lemma inv_clear_all_fields:
  assumes "inv s"
  shows "inv (clear_all_fields s)"
proof -
  let ?s' = "clear_all_fields s"
  have h: "heap_ok s" and r: "roster_ok s" using assms by (simp_all add: inv_def)
  have "heap_ok ?s'"
    using h unfolding heap_ok_def list_all_iff
    by (auto simp: clear_all_fields_def new_dict_def)
  moreover have "session_ok ?s'"
    by (simp add: session_ok_def clear_all_fields_def new_dict_def current_marks_def dict_values_def)
  moreover have "list_all (record_ok ?s') (student_records s)"
    by (rule roster_frame [OF h r]) (simp add: clear_all_fields_def new_dict_def)
  then have "roster_ok ?s'"
    by (simp add: roster_ok_def clear_all_fields_def new_dict_def)
  ultimately show ?thesis by (simp add: inv_def)
qed

lemma start_records:
  "student_records (snd (start_new_student_session n s)) = student_records s"
  by (simp add: start_new_student_session_def new_dict_def Let_def)

lemma add_records:
  "student_records (snd (add_module_mark m k s)) = student_records s"
  by (simp add: add_module_mark_def Let_def split: option.splits)

lemma inv_start:
  assumes "inv s"
  shows "inv (snd (start_new_student_session n s))"
proof -
  let ?s' = "snd (start_new_student_session n s)"
  have h: "heap_ok s" and r: "roster_ok s" and c: "session_ok s"
    using assms by (simp_all add: inv_def)
  have "heap_ok ?s'"
    using h unfolding heap_ok_def list_all_iff
    by (auto simp: start_new_student_session_def new_dict_def Let_def)
  moreover have "session_ok ?s'"
    using c
    by (simp add: session_ok_def start_new_student_session_def new_dict_def current_marks_def
        dict_values_def Let_def)
  moreover have "list_all (record_ok ?s') (student_records s)"
    by (rule roster_frame [OF h r]) (simp add: start_new_student_session_def new_dict_def Let_def)
  then have "roster_ok ?s'"
    unfolding roster_ok_def start_records .
  ultimately show ?thesis by (simp add: inv_def)
qed

lemma inv_add:
  assumes "inv s"
  shows "inv (snd (add_module_mark m k s))"
proof -
  let ?s' = "snd (add_module_mark m k s)"
  have h: "heap_ok s" and r: "roster_ok s" and c: "session_ok s"
    using assms by (simp_all add: inv_def)
  have "heap_ok ?s'"
    using h unfolding heap_ok_def list_all_iff
    by (auto simp: add_module_mark_def Let_def split: option.splits)
  moreover have "session_ok ?s'"
    using c
    by (auto simp: session_ok_def add_module_mark_def current_marks_def Let_def
        mark_in_range_iff values_dict_setitem split: option.splits)
  moreover have "list_all (record_ok ?s') (student_records s)"
    by (rule roster_frame [OF h r]) (auto simp: add_module_mark_def Let_def split: option.splits)
  then have "roster_ok ?s'"
    unfolding roster_ok_def add_records .
  ultimately show ?thesis by (simp add: inv_def)
qed

lemma inv_view:
  assumes "inv s"
  shows "inv (snd (view_live_report s))"
  using assms by (simp add: view_live_report_def Let_def)

lemma inv_finalize:
  assumes "inv s"
  shows "inv (snd (finalize_student s))"
proof (cases "current_student_name s = [] \<or> current_marks s = []")
  case True
  then show ?thesis using assms by (auto simp: finalize_student_def)
next
  case False
  have h: "heap_ok s" and r: "roster_ok s" and c: "session_ok s"
    using assms by (simp_all add: inv_def)
  define avg where "avg = calculate_average (current_marks s)"
  define rec where "rec = \<lparr>marks = next_free s, average = avg, grade = get_grade (Some avg)\<rparr>"
  define s2 where "s2 = s\<lparr>heap := (heap s)(next_free s := current_marks s),
      next_free := next_free s + 1,
      student_records := dict_setitem (student_records s) (current_student_name s) rec\<rparr>"
  have fin: "snd (finalize_student s) = clear_all_fields s2"
    using False by (simp add: finalize_student_def new_dict_def Let_def s2_def rec_def avg_def)
  have range: "list_all mark_in_range (dict_values (current_marks s))"
    using c by (simp add: session_ok_def)
  have ne: "current_marks s \<noteq> []" using False by simp
  have sized: "mark_in_range avg
      \<and> \<bar>fin_val avg - mean (map fin_val (dict_values (current_marks s)))\<bar>
          \<le> rounding_bound (length (current_marks s))
      \<and> get_grade (Some avg) \<in> set [''A'', ''B'', ''C'', ''D'', ''F'']
      \<and> \<not> defensive_branch_taken avg"
    if small: "100 * length (current_marks s) < 2 ^ 53"
  proof -
    from calculate_average_in_range [OF range ne small]
    obtain q where q: "avg = Fin q" "0 \<le> q" "q \<le> 100"
      "\<bar>q - mean (map fin_val (dict_values (current_marks s)))\<bar>
         \<le> rounding_bound (length (current_marks s))"
      unfolding avg_def by blast
    have "mark_in_range avg" using q by simp
    then show ?thesis using grade_in_range [of avg] q by simp
  qed
  have new_ok: "record_ok s2 (current_student_name s, rec)"
    using False range sized
    by (simp add: record_ok_def s2_def rec_def avg_def)
  have old_ok: "list_all (record_ok s2) (student_records s)"
    by (rule roster_frame [OF h r]) (simp add: s2_def)
  have "roster_ok s2"
    unfolding roster_ok_def
    using list_all_dict_setitem [OF old_ok new_ok] by (simp add: s2_def)
  moreover have "heap_ok s2"
  proof -
    have "list_all (\<lambda>(n, r). marks r < next_free s2 \<and> marks r \<noteq> current_student_marks s2)
            (student_records s)"
      using h unfolding heap_ok_def list_all_iff by (auto simp: s2_def)
    moreover have "(\<lambda>(n, r). marks r < next_free s2 \<and> marks r \<noteq> current_student_marks s2)
            (current_student_name s, rec)"
      using h by (auto simp: s2_def rec_def heap_ok_def)
    ultimately have "list_all (\<lambda>(n, r). marks r < next_free s2 \<and> marks r \<noteq> current_student_marks s2)
            (student_records s2)"
      by (simp add: s2_def list_all_dict_setitem)
    then show ?thesis using h by (simp add: heap_ok_def s2_def)
  qed
  moreover have "session_ok s2"
  proof -
    have "current_student_marks s \<noteq> next_free s" using h by (simp add: heap_ok_def)
    then show ?thesis using c by (simp add: session_ok_def s2_def current_marks_def)
  qed
  ultimately have "inv s2" by (simp add: inv_def)
  then show ?thesis unfolding fin by (rule inv_clear_all_fields)
qed

lemma inv_step: "inv s \<Longrightarrow> inv (step a s)"
  by (cases a) (simp_all add: inv_start inv_add inv_finalize inv_view inv_clear_all_fields)

lemma inv_run: "inv s \<Longrightarrow> inv (run as s)"
  by (induction as rule: rev_induct) (simp_all add: run_Nil run_snoc inv_step)

subsection \<open>Evaluation on concrete inputs\<close>

text \<open>The definitions to unfold when an operation is run on given texts.\<close>

lemmas parse_defs =
  strip_def isspace_def float_of_str_def parse_number_def parse_sign_def isdigit_def
  parse_exponent_def digits_val_def digit_val_def scale10_def parse_inf_or_nan_def
  match_ci_def lower_def round_double_ints

lemmas op_defs =
  run_def initial_state_def start_new_student_session_def add_module_mark_def
  finalize_student_def view_live_report_def clear_all_fields_def new_dict_def
  current_marks_def calculate_average_def dict_values_def dict_get_def dict_keys_def
  round_double_ints Let_def

subsection \<open>Single operations and sequences of them\<close>

lemma not_in_range_iff: "(v \<notin> Fin ` {0..100}) = (\<not> (fle (Fin 0) v \<and> fle v (Fin 100)))"
  by (cases v) auto

lemma start_keeps_empty:
  "current_marks s = [] \<Longrightarrow> current_marks (snd (start_new_student_session n s)) = []"
  by (simp add: start_new_student_session_def new_dict_def current_marks_def Let_def)

lemma starts_keep_empty:
  "current_marks s = [] \<Longrightarrow> current_marks (run (map Start ns) s) = []"
  by (induction ns arbitrary: s) (simp_all add: run_Nil run_Cons start_keeps_empty)

lemma add_valid:
  assumes "current_student_name s \<noteq> []" and "valid_mark_input m k"
  shows "\<exists>v. float_of_str (strip k) = Some v
     \<and> add_module_mark m k s =
        (Inr \<lparr>overwritten = dict_get (current_marks s) (strip m),
              module_count = length (dict_setitem (current_marks s) (strip m) v),
              module_names = dict_keys (dict_setitem (current_marks s) (strip m) v)\<rparr>,
         s\<lparr>heap := (heap s)(current_student_marks s :=
              dict_setitem (current_marks s) (strip m) v)\<rparr>)"
  using assms
  by (auto simp: valid_mark_input_def add_module_mark_def Let_def split: option.splits)

lemma add_valid_marks:
  assumes "current_student_name s \<noteq> []" and "valid_mark_input m k"
  shows "\<exists>v. float_of_str (strip k) = Some v
     \<and> current_marks (snd (add_module_mark m k s)) = dict_setitem (current_marks s) (strip m) v"
    and "current_student_name (snd (add_module_mark m k s)) = current_student_name s"
  using add_valid [OF assms] by (auto simp: current_marks_def)

lemma add_name:
  "current_student_name (snd (add_module_mark m k s)) = current_student_name s"
  by (simp add: add_module_mark_def Let_def split: option.splits)

lemma add_marks_name:
  "current_student_name (run (add_marks calls) s) = current_student_name s"
  by (induction calls rule: rev_induct)
     (simp_all add: add_marks_def run_Nil run_snoc add_name split: prod.splits)

lemma last_written_snoc:
  "last_written (calls @ [(m, k)]) n =
     (if strip m = n then float_of_str (strip k) else last_written calls n)"
  by (simp add: last_written_def)

lemma add_marks_result:
  assumes "current_student_name s \<noteq> []"
    and "list_all (\<lambda>(m, k). valid_mark_input m k) calls"
  shows "set (dict_keys (current_marks (run (add_marks calls) s))) =
           set (dict_keys (current_marks s)) \<union> set (map (\<lambda>(m, k). strip m) calls)"
    and "distinct (dict_keys (current_marks s)) \<Longrightarrow>
           distinct (dict_keys (current_marks (run (add_marks calls) s)))"
    and "dict_get (current_marks (run (add_marks calls) s)) n =
           (case last_written calls n of
              Some v \<Rightarrow> Some v
            | None \<Rightarrow> dict_get (current_marks s) n)"
  using assms(2)
proof (induction calls rule: rev_induct)
  case Nil
  {
    case 1 show ?case by (simp add: add_marks_def run_Nil)
  next
    case 2 then show ?case by (simp add: add_marks_def run_Nil)
  next
    case 3 show ?case by (simp add: add_marks_def run_Nil last_written_def)
  }
next
  case (snoc x calls)
  obtain m k where x: "x = (m, k)" by (cases x)
  let ?t = "run (add_marks calls) s"
  have run: "run (add_marks (calls @ [x])) s = snd (add_module_mark m k ?t)"
    by (simp add: add_marks_def run_snoc x)
  have name: "current_student_name ?t \<noteq> []"
    using assms(1) by (simp add: add_marks_name)
  {
    case 1
    then have valid: "valid_mark_input m k" and rest: "list_all (\<lambda>(m, k). valid_mark_input m k) calls"
      by (simp_all add: x)
    from add_valid_marks(1) [OF name valid] obtain v where
      v: "float_of_str (strip k) = Some v"
      and d: "current_marks (snd (add_module_mark m k ?t)) = dict_setitem (current_marks ?t) (strip m) v"
      by blast
    show ?case
      unfolding run d using snoc.IH(1) [OF rest] by (auto simp: set_keys_dict_setitem x)
  next
    case 2
    then have valid: "valid_mark_input m k" and rest: "list_all (\<lambda>(m, k). valid_mark_input m k) calls"
      by (simp_all add: x)
    from add_valid_marks(1) [OF name valid] obtain v where
      v: "float_of_str (strip k) = Some v"
      and d: "current_marks (snd (add_module_mark m k ?t)) = dict_setitem (current_marks ?t) (strip m) v"
      by blast
    show ?case
      unfolding run d using snoc.IH(2) [OF 2(1) rest] by (rule distinct_dict_setitem)
  next
    case 3
    then have valid: "valid_mark_input m k" and rest: "list_all (\<lambda>(m, k). valid_mark_input m k) calls"
      by (simp_all add: x)
    from add_valid_marks(1) [OF name valid] obtain v where
      v: "float_of_str (strip k) = Some v"
      and d: "current_marks (snd (add_module_mark m k ?t)) = dict_setitem (current_marks ?t) (strip m) v"
      by blast
    show ?case
      unfolding run d using snoc.IH(3) [OF rest]
      by (simp add: dict_get_setitem x last_written_snoc v)
  }
qed

text \<open>
  A dictionary that has been handed out and is not the one of the session is out of reach:
  no operation writes to it, and it never becomes the dictionary of the session again.
\<close>

lemma step_frame:
  assumes "a < next_free s" and "a \<noteq> current_student_marks s"
    and "current_student_marks s < next_free s"
  shows "heap (step act s) a = heap s a \<and> a < next_free (step act s)
         \<and> a \<noteq> current_student_marks (step act s)
         \<and> current_student_marks (step act s) < next_free (step act s)"
proof (cases act)
  case (Start n)
  then show ?thesis using assms
    by (simp add: start_new_student_session_def new_dict_def Let_def)
next
  case (AddMark m k)
  then show ?thesis using assms
    by (simp add: add_module_mark_def Let_def split: option.splits)
next
  case Finalize
  then show ?thesis using assms
    by (simp add: finalize_student_def clear_all_fields_def new_dict_def Let_def)
next
  case LiveReport
  then show ?thesis using assms by (simp add: view_live_report_def Let_def)
next
  case ClearAll
  then show ?thesis using assms by (simp add: clear_all_fields_def new_dict_def)
qed

lemma run_frame:
  assumes "a < next_free s" and "a \<noteq> current_student_marks s"
    and "current_student_marks s < next_free s"
  shows "heap (run bs s) a = heap s a \<and> a < next_free (run bs s)
         \<and> a \<noteq> current_student_marks (run bs s)
         \<and> current_student_marks (run bs s) < next_free (run bs s)"
proof (induction bs rule: rev_induct)
  case Nil
  then show ?case using assms by (simp add: run_Nil)
next
  case (snoc b bs)
  then show ?case using step_frame [of a "run bs s" b] by (simp add: run_snoc)
qed

subsection \<open>Finalising a student\<close>

text \<open>
  Claim C3.  In a state reached from the initial one, with a name confirmed and at least
  one mark entered, \<open>finalize_student\<close> succeeds.  The record it returns holds the average
  of the marks and the grade of that average; it is the roster's entry for the name, other
  entries are as before; its dictionary is a new object with the contents of the session's
  marks, which is neither the dictionary of the old session nor that of the new one and
  which no later operation changes; the session is cleared, name and marks, and
  \<open>view_live_report\<close> then fails.
\<close>

theorem finalize_student_saves_and_clears:
  assumes "s = run as initial_state"
    and "current_student_name s \<noteq> []"
    and "current_marks s \<noteq> []"
  shows "\<exists>r. fst (finalize_student s) = Inr (current_student_name s, r)
      \<and> average r = calculate_average (current_marks s)
      \<and> grade r = get_grade (Some (average r))
      \<and> dict_get (student_records (snd (finalize_student s))) (current_student_name s) = Some r
      \<and> (\<forall>n. n \<noteq> current_student_name s \<longrightarrow>
            dict_get (student_records (snd (finalize_student s))) n =
              dict_get (student_records s) n)
      \<and> heap (snd (finalize_student s)) (marks r) = current_marks s
      \<and> marks r \<noteq> current_student_marks s
      \<and> marks r \<noteq> current_student_marks (snd (finalize_student s))
      \<and> (\<forall>bs. heap (run bs (snd (finalize_student s))) (marks r) = current_marks s)
      \<and> current_student_name (snd (finalize_student s)) = []
      \<and> current_marks (snd (finalize_student s)) = []
      \<and> fst (view_live_report (snd (finalize_student s))) = Inl NoActiveSession"
proof -
  define avg where "avg = calculate_average (current_marks s)"
  define r where "r = \<lparr>marks = next_free s, average = avg, grade = get_grade (Some avg)\<rparr>"
  define s' where "s' = snd (finalize_student s)"
  have "inv s" unfolding assms(1) by (rule inv_run [OF inv_initial])
  then have ok: "current_student_marks s < next_free s" by (simp add: inv_def heap_ok_def)
  have res: "fst (finalize_student s) = Inr (current_student_name s, r)"
    using assms(2,3) by (simp add: finalize_student_def new_dict_def Let_def r_def avg_def)
  have s': "s' = s\<lparr>heap := (heap s)(next_free s := current_marks s, Suc (next_free s) := []),
        next_free := Suc (Suc (next_free s)),
        student_records := dict_setitem (student_records s) (current_student_name s) r,
        current_student_marks := Suc (next_free s),
        current_student_name := []\<rparr>"
    using assms(2,3)
    by (simp add: s'_def finalize_student_def clear_all_fields_def new_dict_def Let_def r_def avg_def)
  have snap: "heap s' (marks r) = current_marks s" by (simp add: s' r_def)
  have "\<forall>bs. heap (run bs s') (marks r) = current_marks s"
  proof
    fix bs
    have "heap (run bs s') (marks r) = heap s' (marks r)"
      using run_frame [of "marks r" s' bs] by (simp add: s' r_def)
    then show "heap (run bs s') (marks r) = current_marks s" by (simp add: snap)
  qed
  moreover have "dict_get (student_records s') (current_student_name s) = Some r"
    by (simp add: s' dict_get_setitem)
  moreover have "\<forall>n. n \<noteq> current_student_name s \<longrightarrow>
      dict_get (student_records s') n = dict_get (student_records s) n"
    by (simp add: s' dict_get_setitem)
  moreover have "marks r \<noteq> current_student_marks s" using ok by (simp add: r_def)
  moreover have "marks r \<noteq> current_student_marks s'" by (simp add: s' r_def)
  moreover have "current_student_name s' = []" and "current_marks s' = []"
    by (simp_all add: s' current_marks_def)
  moreover have "fst (view_live_report s') = Inl NoActiveSession"
    by (simp add: view_live_report_def s')
  moreover have "average r = calculate_average (current_marks s)"
    and "grade r = get_grade (Some (average r))"
    by (simp_all add: r_def avg_def)
  ultimately show ?thesis using res snap unfolding s'_def by blast
qed

theorem finalize_student_saves_and_clears_witness:
  "current_student_name
      (run [Start ''Alice'', AddMark ''Math'' ''80'', AddMark ''Eng'' ''90''] initial_state) \<noteq> []
   \<and> current_marks
      (run [Start ''Alice'', AddMark ''Math'' ''80'', AddMark ''Eng'' ''90''] initial_state) \<noteq> []
   \<and> fst (finalize_student
        (run [Start ''Alice'', AddMark ''Math'' ''80'', AddMark ''Eng'' ''90''] initial_state)) =
       Inr (''Alice'', \<lparr>marks = 2, average = Fin 85, grade = ''B''\<rparr>)
   \<and> heap (snd (finalize_student
        (run [Start ''Alice'', AddMark ''Math'' ''80'', AddMark ''Eng'' ''90''] initial_state))) 2 =
       [(''Math'', Fin 80), (''Eng'', Fin 90)]
   \<and> fst (view_live_report (snd (finalize_student
        (run [Start ''Alice'', AddMark ''Math'' ''80'', AddMark ''Eng'' ''90''] initial_state)))) =
       Inl NoActiveSession
   \<and> heap (run [AddMark ''Math'' ''10'', Start ''Alice'', AddMark ''Math'' ''20'']
        (snd (finalize_student
          (run [Start ''Alice'', AddMark ''Math'' ''80'', AddMark ''Eng'' ''90''] initial_state)))) 2 =
       [(''Math'', Fin 80), (''Eng'', Fin 90)]"
proof -
  let ?s = "run [Start ''Alice'', AddMark ''Math'' ''80'', AddMark ''Eng'' ''90''] initial_state"
  have s: "current_student_name ?s = ''Alice''"
    "current_marks ?s = [(''Math'', Fin 80), (''Eng'', Fin 90)]"
    "next_free ?s = 2"
    by (simp_all add: op_defs parse_defs)
  have h: "current_student_name ?s \<noteq> []" "current_marks ?s \<noteq> []"
    by (simp_all add: s)
  have avg: "calculate_average [(''Math'', Fin 80), (''Eng'', Fin 90)] = Fin 85"
    by (simp add: calculate_average_def dict_values_def round_double_ints)
  have res: "fst (finalize_student ?s) = Inr (''Alice'', \<lparr>marks = 2, average = Fin 85, grade = ''B''\<rparr>)"
    using s avg by (simp add: finalize_student_def new_dict_def Let_def get_grade_Fin)
  from finalize_student_saves_and_clears [OF refl h]
  obtain r where r: "fst (finalize_student ?s) = Inr (current_student_name ?s, r)"
    and snap: "heap (snd (finalize_student ?s)) (marks r) = current_marks ?s"
    and later: "\<forall>bs. heap (run bs (snd (finalize_student ?s))) (marks r) = current_marks ?s"
    and view: "fst (view_live_report (snd (finalize_student ?s))) = Inl NoActiveSession"
    by blast
  from r res have "r = \<lparr>marks = 2, average = Fin 85, grade = ''B''\<rparr>" by simp
  then have m: "marks r = 2" by simp
  have "heap (snd (finalize_student ?s)) 2 = [(''Math'', Fin 80), (''Eng'', Fin 90)]"
    using snap by (simp add: m s)
  moreover have "heap (run [AddMark ''Math'' ''10'', Start ''Alice'', AddMark ''Math'' ''20'']
        (snd (finalize_student ?s))) 2 = [(''Math'', Fin 80), (''Eng'', Fin 90)]"
    using later by (simp add: m s)
  ultimately show ?thesis using h res view by (intro conjI)
qed

subsection \<open>Adding a mark\<close>

text \<open>
  The strings \<open>nan\<close> and \<open>inf\<close> are accepted by \<open>float\<close>, as not-a-number and infinity.
  Neither is a finite number, and \<open>add_module_mark\<close> rejects both with the message of a
  mark out of range, not with that of a mark that is not numeric.
\<close>

theorem add_module_mark_nan_counterexample:
  "float_of_str (strip ''nan'') = Some NaN
   \<and> fst (add_module_mark ''Maths'' ''nan'' (run [Start ''Zoe''] initial_state)) = Inl OutOfRange
   \<and> float_of_str (strip ''inf'') = Some PInf
   \<and> fst (add_module_mark ''Maths'' ''inf'' (run [Start ''Zoe''] initial_state)) = Inl OutOfRange"
  by (simp add: op_defs parse_defs)

text \<open>
  Claim C4, as amended.  \<open>add_module_mark\<close> reports no active session exactly when no name
  is confirmed; otherwise an empty field exactly when the trimmed module name or the trimmed
  mark is empty; otherwise a mark that is not numeric exactly when \<open>float\<close> rejects the
  trimmed mark; otherwise a mark out of range exactly when the value that \<open>float\<close> returns
  is not a number between 0 and 100, infinities and not-a-number included; and it succeeds
  in every other case.  It reports no other error.
\<close>

theorem add_module_mark_outcome:
  "(fst (add_module_mark m k s) = Inl NoActiveSession) = (current_student_name s = [])
   \<and> (fst (add_module_mark m k s) = Inl EmptyField) =
       (current_student_name s \<noteq> [] \<and> (strip m = [] \<or> strip k = []))
   \<and> (fst (add_module_mark m k s) = Inl NotNumeric) =
       (current_student_name s \<noteq> [] \<and> strip m \<noteq> [] \<and> strip k \<noteq> []
        \<and> float_of_str (strip k) = None)
   \<and> (fst (add_module_mark m k s) = Inl OutOfRange) =
       (current_student_name s \<noteq> [] \<and> strip m \<noteq> [] \<and> strip k \<noteq> []
        \<and> (\<exists>v. float_of_str (strip k) = Some v \<and> v \<notin> Fin ` {0..100}))
   \<and> (\<exists>info. fst (add_module_mark m k s) = Inr info) =
       (current_student_name s \<noteq> [] \<and> strip m \<noteq> [] \<and> strip k \<noteq> []
        \<and> (\<exists>v. float_of_str (strip k) = Some v \<and> v \<in> Fin ` {0..100}))
   \<and> fst (add_module_mark m k s) \<noteq> Inl EmptyName
   \<and> fst (add_module_mark m k s) \<noteq> Inl NoMarks"
proof (cases "current_student_name s = []")
  case True
  then show ?thesis by (simp add: add_module_mark_def)
next
  case name: False
  show ?thesis
  proof (cases "strip m = [] \<or> strip k = []")
    case True
    then show ?thesis using name by (auto simp: add_module_mark_def Let_def)
  next
    case fields: False
    show ?thesis
    proof (cases "float_of_str (strip k)")
      case None
      then show ?thesis using name fields by (simp add: add_module_mark_def Let_def)
    next
      case (Some v)
      show ?thesis
      proof (cases "v \<in> Fin ` {0..100}")
        case True
        then have "fle (Fin 0) v \<and> fle v (Fin 100)" using not_in_range_iff [of v] by simp
        then show ?thesis using name fields Some True
          by (simp add: add_module_mark_def Let_def)
      next
        case False
        then have "\<not> (fle (Fin 0) v \<and> fle v (Fin 100))" using not_in_range_iff [of v] by simp
        then show ?thesis using name fields Some False
          by (simp add: add_module_mark_def Let_def)
      qed
    qed
  qed
qed

theorem add_module_mark_outcome_witness:
  "fst (add_module_mark ''Maths'' ''101'' (run [Start ''Zoe''] initial_state)) = Inl OutOfRange
   \<and> fst (add_module_mark ''Maths'' ''-1'' (run [Start ''Zoe''] initial_state)) = Inl OutOfRange
   \<and> fst (add_module_mark ''Maths'' ''abc'' (run [Start ''Zoe''] initial_state)) = Inl NotNumeric
   \<and> fst (add_module_mark ''Maths'' ''  '' (run [Start ''Zoe''] initial_state)) = Inl EmptyField
   \<and> fst (add_module_mark ''Maths'' ''80'' initial_state) = Inl NoActiveSession
   \<and> (\<exists>info. fst (add_module_mark ''Maths'' ''80'' (run [Start ''Zoe''] initial_state)) = Inr info)"
proof -
  let ?s = "run [Start ''Zoe''] initial_state"
  have name: "current_student_name ?s = ''Zoe''" "current_student_name initial_state = []"
    by (simp_all add: op_defs parse_defs)
  have p: "float_of_str ''101'' = Some (Fin 101)"
    "float_of_str ''-1'' = Some (Fin (- 1))"
    "float_of_str ''abc'' = None"
    "float_of_str ''80'' = Some (Fin 80)"
    "strip ''  '' = []" "strip ''Maths'' = ''Maths''"
    "strip ''101'' = ''101''" "strip ''-1'' = ''-1''" "strip ''abc'' = ''abc''"
    "strip ''80'' = ''80''"
    by (simp_all add: parse_defs)
  have r: "Fin 101 \<notin> Fin ` {0..100}" "Fin (- 1) \<notin> Fin ` {0..100}" "Fin 80 \<in> Fin ` {0..100}"
    by auto
  have "fst (add_module_mark ''Maths'' ''101'' ?s) = Inl OutOfRange"
    using add_module_mark_outcome [of "''Maths''" "''101''" ?s] r by (simp add: name p)
  moreover have "fst (add_module_mark ''Maths'' ''-1'' ?s) = Inl OutOfRange"
    using add_module_mark_outcome [of "''Maths''" "''-1''" ?s] r by (simp add: name p)
  moreover have "fst (add_module_mark ''Maths'' ''abc'' ?s) = Inl NotNumeric"
    using add_module_mark_outcome [of "''Maths''" "''abc''" ?s] by (simp add: name p)
  moreover have "fst (add_module_mark ''Maths'' ''  '' ?s) = Inl EmptyField"
    using add_module_mark_outcome [of "''Maths''" "''  ''" ?s] by (simp add: name p)
  moreover have "fst (add_module_mark ''Maths'' ''80'' initial_state) = Inl NoActiveSession"
    using add_module_mark_outcome [of "''Maths''" "''80''" initial_state] by (simp add: name p)
  moreover have "\<exists>info. fst (add_module_mark ''Maths'' ''80'' ?s) = Inr info"
    using add_module_mark_outcome [of "''Maths''" "''80''" ?s] r by (simp add: name p)
  ultimately show ?thesis by (intro conjI)
qed

text \<open>
  Claim C5.  After a sequence of valid calls of \<open>add_module_mark\<close> in a session with a
  confirmed name, every module holds the mark of the last call that named it (and a module
  that no call named holds what it held before); started from an empty dictionary, the
  number of modules is the number of distinct trimmed module names of the calls.  A valid
  call for a module that is present succeeds, reports the mark it replaces and leaves the
  count and the order of the modules as they are; one for a module that is absent reports
  no replaced mark and puts the module at the end.  Either way the module then holds the
  new mark.
\<close>

theorem add_marks_last_write_wins:
  assumes "current_student_name s \<noteq> []"
    and "list_all (\<lambda>(m, k). valid_mark_input m k) calls"
  shows "(current_marks s = [] \<longrightarrow>
            length (current_marks (run (add_marks calls) s)) =
              card (set (map (\<lambda>(m, k). strip m) calls)))
         \<and> (\<forall>n. dict_get (current_marks (run (add_marks calls) s)) n =
                  (case last_written calls n of
                     Some v \<Rightarrow> Some v
                   | None \<Rightarrow> dict_get (current_marks s) n))
         \<and> (\<forall>m k old. valid_mark_input m k \<and> dict_get (current_marks s) (strip m) = Some old \<longrightarrow>
               fst (add_module_mark m k s) =
                 Inr \<lparr>overwritten = Some old, module_count = length (current_marks s),
                      module_names = dict_keys (current_marks s)\<rparr>
               \<and> dict_get (current_marks (snd (add_module_mark m k s))) (strip m) =
                   float_of_str (strip k))
         \<and> (\<forall>m k. valid_mark_input m k \<and> dict_get (current_marks s) (strip m) = None \<longrightarrow>
               fst (add_module_mark m k s) =
                 Inr \<lparr>overwritten = None, module_count = Suc (length (current_marks s)),
                      module_names = dict_keys (current_marks s) @ [strip m]\<rparr>
               \<and> dict_get (current_marks (snd (add_module_mark m k s))) (strip m) =
                   float_of_str (strip k))"
proof (intro conjI impI allI)
  let ?d = "current_marks (run (add_marks calls) s)"
  assume empty: "current_marks s = []"
  then have "distinct (dict_keys (current_marks s))" by (simp add: dict_keys_def)
  then have "distinct (dict_keys ?d)" by (rule add_marks_result(2) [OF assms])
  then have "card (set (dict_keys ?d)) = length (dict_keys ?d)" by (rule distinct_card)
  moreover have "set (dict_keys ?d) = set (map (\<lambda>(m, k). strip m) calls)"
    using add_marks_result(1) [OF assms] empty by (simp add: dict_keys_def)
  ultimately show "length ?d = card (set (map (\<lambda>(m, k). strip m) calls))"
    by (simp add: dict_keys_def)
next
  fix n
  show "dict_get (current_marks (run (add_marks calls) s)) n =
          (case last_written calls n of
             Some v \<Rightarrow> Some v
           | None \<Rightarrow> dict_get (current_marks s) n)"
    by (rule add_marks_result(3) [OF assms])
next
  fix m k old
  assume a: "valid_mark_input m k \<and> dict_get (current_marks s) (strip m) = Some old"
  then have "strip m \<in> set (dict_keys (current_marks s))"
    using dict_get_None [of "current_marks s" "strip m"] by auto
  then show "fst (add_module_mark m k s) =
        Inr \<lparr>overwritten = Some old, module_count = length (current_marks s),
             module_names = dict_keys (current_marks s)\<rparr>"
    using add_valid [OF assms(1), of m k] a
    by (auto simp: length_dict_setitem dict_keys_setitem)
  show "dict_get (current_marks (snd (add_module_mark m k s))) (strip m) = float_of_str (strip k)"
    using add_valid_marks(1) [OF assms(1), of m k] a by (auto simp: dict_get_setitem)
next
  fix m k
  assume a: "valid_mark_input m k \<and> dict_get (current_marks s) (strip m) = None"
  then have "strip m \<notin> set (dict_keys (current_marks s))"
    using dict_get_None [of "current_marks s" "strip m"] by auto
  then show "fst (add_module_mark m k s) =
        Inr \<lparr>overwritten = None, module_count = Suc (length (current_marks s)),
             module_names = dict_keys (current_marks s) @ [strip m]\<rparr>"
    using add_valid [OF assms(1), of m k] a
    by (auto simp: length_dict_setitem dict_keys_setitem)
  show "dict_get (current_marks (snd (add_module_mark m k s))) (strip m) = float_of_str (strip k)"
    using add_valid_marks(1) [OF assms(1), of m k] a by (auto simp: dict_get_setitem)
qed

theorem add_marks_last_write_wins_witness:
  "current_student_name (run [Start ''Zoe''] initial_state) \<noteq> []
   \<and> list_all (\<lambda>(m, k). valid_mark_input m k)
        [(''Quiz1'', ''55''), (''Quiz2'', ''65''), ('' Quiz1 '', ''70'')]
   \<and> length (current_marks (run (add_marks [(''Quiz1'', ''55''), (''Quiz2'', ''65''),
        ('' Quiz1 '', ''70'')]) (run [Start ''Zoe''] initial_state))) = 2
   \<and> dict_get (current_marks (run (add_marks [(''Quiz1'', ''55''), (''Quiz2'', ''65''),
        ('' Quiz1 '', ''70'')]) (run [Start ''Zoe''] initial_state))) ''Quiz1'' = Some (Fin 70)
   \<and> fst (add_module_mark '' Quiz1 '' ''70''
        (run [Start ''Zoe'', AddMark ''Quiz1'' ''55'', AddMark ''Quiz2'' ''65''] initial_state)) =
       Inr \<lparr>overwritten = Some (Fin 55), module_count = 2,
            module_names = [''Quiz1'', ''Quiz2'']\<rparr>"
proof -
  let ?s = "run [Start ''Zoe''] initial_state"
  let ?t = "run [Start ''Zoe'', AddMark ''Quiz1'' ''55'', AddMark ''Quiz2'' ''65''] initial_state"
  let ?calls = "[(''Quiz1'', ''55''), (''Quiz2'', ''65''), ('' Quiz1 '', ''70'')]"
  have s: "current_student_name ?s \<noteq> []" "current_marks ?s = []"
    by (simp_all add: op_defs parse_defs)
  have t: "current_student_name ?t \<noteq> []"
    "current_marks ?t = [(''Quiz1'', Fin 55), (''Quiz2'', Fin 65)]"
    by (simp_all add: op_defs parse_defs)
  have p: "strip ''Quiz1'' = ''Quiz1''" "strip ''Quiz2'' = ''Quiz2''" "strip '' Quiz1 '' = ''Quiz1''"
    "strip ''55'' = ''55''" "strip ''65'' = ''65''" "strip ''70'' = ''70''"
    "float_of_str ''55'' = Some (Fin 55)" "float_of_str ''65'' = Some (Fin 65)"
    "float_of_str ''70'' = Some (Fin 70)"
    by (simp_all add: parse_defs)
  have v: "list_all (\<lambda>(m, k). valid_mark_input m k) ?calls"
    by (simp add: valid_mark_input_def p)
  have v1: "valid_mark_input '' Quiz1 '' ''70''"
    by (simp add: valid_mark_input_def p)
  have c: "card (set (map (\<lambda>(m, k). strip m) ?calls)) = 2"
    by (simp add: p card_insert_if)
  have l: "last_written ?calls ''Quiz1'' = Some (Fin 70)"
    by (simp add: last_written_def p)
  have "length (current_marks (run (add_marks ?calls) ?s)) = 2"
    using add_marks_last_write_wins [OF s(1) v] s(2) c by simp
  moreover have "dict_get (current_marks (run (add_marks ?calls) ?s)) ''Quiz1'' = Some (Fin 70)"
    using add_marks_last_write_wins [OF s(1) v] l by simp
  moreover have "fst (add_module_mark '' Quiz1 '' ''70'' ?t) =
       Inr \<lparr>overwritten = Some (Fin 55), module_count = 2,
            module_names = [''Quiz1'', ''Quiz2'']\<rparr>"
  proof -
    have "dict_get (current_marks ?t) (strip '' Quiz1 '') = Some (Fin 55)"
      by (simp add: t p dict_get_def)
    with v1 add_marks_last_write_wins [OF t(1), of "[]"] show ?thesis
      by (simp add: t(2) dict_keys_def)
  qed
  ultimately show ?thesis using s(1) v by (intro conjI)
qed

subsection \<open>Starting a session\<close>

text \<open>
  Claim C6.  \<open>start_new_student_session\<close> with the name of the current session leaves
  the state as it is, and calling it twice is the same as calling it once.  With another
  name, not blank, it succeeds, sets the name and starts from an empty dictionary of marks;
  the roster is as before, and confirming any further names, the old one included, does
  not bring the marks back.
\<close>

theorem start_session_confirm_or_reset:
  "(strip n = current_student_name s \<longrightarrow> snd (start_new_student_session n s) = s)
   \<and> (strip n \<noteq> [] \<and> strip n \<noteq> current_student_name s \<longrightarrow>
        fst (start_new_student_session n s) = Inr (strip n, 0)
        \<and> current_student_name (snd (start_new_student_session n s)) = strip n
        \<and> current_marks (snd (start_new_student_session n s)) = []
        \<and> student_records (snd (start_new_student_session n s)) = student_records s
        \<and> (\<forall>ns. current_marks (run (map Start ns) (snd (start_new_student_session n s))) = []))
   \<and> snd (start_new_student_session n (snd (start_new_student_session n s)))
       = snd (start_new_student_session n s)"
proof (intro conjI impI allI)
  assume "strip n = current_student_name s"
  then show "snd (start_new_student_session n s) = s"
    by (simp add: start_new_student_session_def Let_def)
next
  assume a: "strip n \<noteq> [] \<and> strip n \<noteq> current_student_name s"
  then show "fst (start_new_student_session n s) = Inr (strip n, 0)"
    and "current_student_name (snd (start_new_student_session n s)) = strip n"
    and e: "current_marks (snd (start_new_student_session n s)) = []"
    and "student_records (snd (start_new_student_session n s)) = student_records s"
    by (simp_all add: start_new_student_session_def new_dict_def current_marks_def Let_def)
  fix ns
  show "current_marks (run (map Start ns) (snd (start_new_student_session n s))) = []"
    by (rule starts_keep_empty [OF e])
next
  show "snd (start_new_student_session n (snd (start_new_student_session n s)))
       = snd (start_new_student_session n s)"
    by (simp add: start_new_student_session_def new_dict_def Let_def)
qed

theorem start_session_confirm_or_reset_witness:
  "current_marks (run [Start ''Alice'', AddMark ''Math'' ''80''] initial_state) = [(''Math'', Fin 80)]
   \<and> snd (start_new_student_session '' Alice '' (run [Start ''Alice'', AddMark ''Math'' ''80''] initial_state))
       = run [Start ''Alice'', AddMark ''Math'' ''80''] initial_state
   \<and> fst (start_new_student_session ''Bob'' (run [Start ''Alice'', AddMark ''Math'' ''80''] initial_state))
       = Inr (''Bob'', 0)
   \<and> current_marks (run [Start ''Alice'', AddMark ''Math'' ''80'', Start ''Bob''] initial_state) = []
   \<and> current_marks (run [Start ''Alice'', AddMark ''Math'' ''80'', Start ''Bob'', Start ''Alice'']
        initial_state) = []"
proof -
  let ?s = "run [Start ''Alice'', AddMark ''Math'' ''80''] initial_state"
  have s: "current_student_name ?s = ''Alice''" "current_marks ?s = [(''Math'', Fin 80)]"
    by (simp_all add: op_defs parse_defs)
  have n: "strip '' Alice '' = ''Alice''" "strip ''Bob'' = ''Bob''"
    by (simp_all add: parse_defs)
  have r: "run [Start ''Alice'', AddMark ''Math'' ''80'', Start ''Bob''] initial_state
      = snd (start_new_student_session ''Bob'' ?s)"
    "run [Start ''Alice'', AddMark ''Math'' ''80'', Start ''Bob'', Start ''Alice''] initial_state
      = run (map Start [''Alice'']) (snd (start_new_student_session ''Bob'' ?s))"
    by (simp_all add: run_def)
  have bob: "fst (start_new_student_session ''Bob'' ?s) = Inr (''Bob'', 0)
      \<and> current_marks (snd (start_new_student_session ''Bob'' ?s)) = []
      \<and> (\<forall>ns. current_marks (run (map Start ns) (snd (start_new_student_session ''Bob'' ?s))) = [])"
    using start_session_confirm_or_reset [of "''Bob''" ?s] s n by simp
  then have "current_marks (run (map Start [''Alice'']) (snd (start_new_student_session ''Bob'' ?s))) = []"
    by blast
  moreover have "snd (start_new_student_session '' Alice '' ?s) = ?s"
    using start_session_confirm_or_reset [of "'' Alice ''" ?s] s n by simp
  ultimately show ?thesis
    using bob unfolding r by (simp add: s)
qed

subsection \<open>Failed operations\<close>

text \<open>
  Claim C7.  When \<open>start_new_student_session\<close>, \<open>add_module_mark\<close> or
  \<open>finalize_student\<close> reports an error, the error is one of the validation errors of the
  operation and the state (roster, name, marks and heap) is the one before the call.  The
  only exception raised on these paths, the \<open>ValueError\<close> of \<open>float\<close>, is caught and
  reported as a mark that is not numeric.
\<close>

theorem failed_operations_atomic:
  "(fst (start_new_student_session n s) = Inl e \<longrightarrow>
      e = EmptyName \<and> snd (start_new_student_session n s) = s)
   \<and> (fst (add_module_mark m k s) = Inl e \<longrightarrow>
      e \<in> {NoActiveSession, EmptyField, NotNumeric, OutOfRange}
      \<and> snd (add_module_mark m k s) = s)
   \<and> (fst (finalize_student s) = Inl e \<longrightarrow>
      e \<in> {NoActiveSession, NoMarks} \<and> snd (finalize_student s) = s)"
proof (intro conjI impI)
  assume "fst (start_new_student_session n s) = Inl e"
  then show "e = EmptyName" and "snd (start_new_student_session n s) = s"
    by (auto simp: start_new_student_session_def Let_def split: if_splits)
next
  assume "fst (add_module_mark m k s) = Inl e"
  then show "e \<in> {NoActiveSession, EmptyField, NotNumeric, OutOfRange}"
    and "snd (add_module_mark m k s) = s"
    by (auto simp: add_module_mark_def Let_def split: if_splits option.splits)
next
  assume "fst (finalize_student s) = Inl e"
  then show "e \<in> {NoActiveSession, NoMarks}" and "snd (finalize_student s) = s"
    by (auto simp: finalize_student_def Let_def new_dict_def split: if_splits)
qed

theorem failed_operations_atomic_witness:
  "fst (start_new_student_session ''  '' (run [Start ''Zoe'', AddMark ''Quiz1'' ''55''] initial_state))
     = Inl EmptyName
   \<and> snd (start_new_student_session ''  '' (run [Start ''Zoe'', AddMark ''Quiz1'' ''55''] initial_state))
     = run [Start ''Zoe'', AddMark ''Quiz1'' ''55''] initial_state
   \<and> fst (add_module_mark ''Quiz2'' ''abc'' (run [Start ''Zoe'', AddMark ''Quiz1'' ''55''] initial_state))
     = Inl NotNumeric
   \<and> snd (add_module_mark ''Quiz2'' ''abc'' (run [Start ''Zoe'', AddMark ''Quiz1'' ''55''] initial_state))
     = run [Start ''Zoe'', AddMark ''Quiz1'' ''55''] initial_state
   \<and> fst (finalize_student (run [Start ''Zoe''] initial_state)) = Inl NoMarks
   \<and> snd (finalize_student (run [Start ''Zoe''] initial_state)) = run [Start ''Zoe''] initial_state"
proof -
  let ?s = "run [Start ''Zoe'', AddMark ''Quiz1'' ''55''] initial_state"
  let ?t = "run [Start ''Zoe''] initial_state"
  have name: "current_student_name ?s = ''Zoe''" by (simp add: op_defs parse_defs)
  have a: "fst (start_new_student_session ''  '' ?s) = Inl EmptyName"
    by (simp add: start_new_student_session_def strip_def isspace_def)
  have b: "fst (add_module_mark ''Quiz2'' ''abc'' ?s) = Inl NotNumeric"
    by (simp add: add_module_mark_def name parse_defs)
  have c: "fst (finalize_student ?t) = Inl NoMarks"
    by (simp add: op_defs parse_defs)
  from a b c
    failed_operations_atomic [of "''  ''" ?s EmptyName "''Quiz2''" "''abc''"]
    failed_operations_atomic [of "''  ''" ?s NotNumeric "''Quiz2''" "''abc''"]
    failed_operations_atomic [of "''  ''" ?t NoMarks "''Quiz2''" "''abc''"]
  show ?thesis by simp
qed

subsection \<open>The live report\<close>

text \<open>
  Claim C8.  \<open>view_live_report\<close> never changes the state.  It fails when no name is
  confirmed or no mark is entered, and otherwise reports the average of the marks of the
  session and the grade of that average.
\<close>

theorem view_live_report_read_only:
  "snd (view_live_report s) = s
   \<and> fst (view_live_report s) =
       (if current_student_name s = [] \<or> current_marks s = [] then Inl NoActiveSession
        else Inr (calculate_average (current_marks s),
                  get_grade (Some (calculate_average (current_marks s)))))"
  by (simp add: view_live_report_def Let_def)

subsection \<open>The roster\<close>

text \<open>
  A student with the marks 1, 0 and 0 is saved with the average
  \<open>0.3333333333333333\<close>, which is not the mean of the marks.
\<close>

theorem roster_average_not_exact_counterexample:
  "student_records
     (run [Start ''Zoe'', AddMark ''a'' ''1'', AddMark ''b'' ''0'', AddMark ''c'' ''0'', Finalize]
        initial_state) =
     [(''Zoe'', \<lparr>marks = 2, average = Fin (6004799503160661 / 18014398509481984),
                grade = ''F''\<rparr>)]
   \<and> heap
     (run [Start ''Zoe'', AddMark ''a'' ''1'', AddMark ''b'' ''0'', AddMark ''c'' ''0'', Finalize]
        initial_state) 2 =
     [(''a'', Fin 1), (''b'', Fin 0), (''c'', Fin 0)]
   \<and> mean [1, 0, 0] = 1 / 3
   \<and> (6004799503160661 / 18014398509481984 :: rat) \<noteq> 1 / 3"
proof -
  have third: "round_double (1 / 3) = Fin (6004799503160661 / 18014398509481984)"
    by code_simp
  have "student_records
     (run [Start ''Zoe'', AddMark ''a'' ''1'', AddMark ''b'' ''0'', AddMark ''c'' ''0'', Finalize]
        initial_state) =
     [(''Zoe'', \<lparr>marks = 2, average = Fin (6004799503160661 / 18014398509481984),
                grade = ''F''\<rparr>)]"
    by (simp add: op_defs parse_defs third get_grade_Fin)
  moreover have "heap
     (run [Start ''Zoe'', AddMark ''a'' ''1'', AddMark ''b'' ''0'', AddMark ''c'' ''0'', Finalize]
        initial_state) 2 =
     [(''a'', Fin 1), (''b'', Fin 0), (''c'', Fin 0)]"
    by (simp add: op_defs parse_defs third get_grade_Fin)
  ultimately show ?thesis by (simp add: mean_def)
qed

text \<open>
  Claim C10, as amended.  After any sequence of operations from the initial state, every
  record of the roster has a non-empty name and a non-empty dictionary of marks between 0
  and 100; its average is the one that \<open>calculate_average\<close> gives for these marks, and its
  grade is \<open>get_grade\<close> of the average.  When the record has fewer than \<open>2 ^ 53 / 100\<close>
  marks, the average lies between 0 and 100 and within \<open>100 * (n + 1) / 2 ^ 53\<close> of the
  mean of its \<open>n\<close> marks, the grade is one of A, B, C, D and F, and none of the defensive
  branches of \<open>get_grade\<close> produced it.
\<close>

theorem roster_invariant: "roster_ok (run as initial_state)"
  using inv_run [OF inv_initial, of as] by (simp add: inv_def)

theorem roster_invariant_witness:
  "roster_ok (run [Start ''Zoe'', AddMark ''Quiz1'' ''55'', AddMark ''Quiz2'' ''65'', Finalize]
                initial_state)
   \<and> student_records
        (run [Start ''Zoe'', AddMark ''Quiz1'' ''55'', AddMark ''Quiz2'' ''65'', Finalize]
           initial_state) = [(''Zoe'', \<lparr>marks = 2, average = Fin 60, grade = ''D''\<rparr>)]
   \<and> heap (run [Start ''Zoe'', AddMark ''Quiz1'' ''55'', AddMark ''Quiz2'' ''65'', Finalize]
           initial_state) 2 = [(''Quiz1'', Fin 55), (''Quiz2'', Fin 65)]
   \<and> 100 * length [(''Quiz1'', Fin 55), (''Quiz2'', Fin 65)] < (2::nat) ^ 53"
proof -
  have "student_records
        (run [Start ''Zoe'', AddMark ''Quiz1'' ''55'', AddMark ''Quiz2'' ''65'', Finalize]
           initial_state) = [(''Zoe'', \<lparr>marks = 2, average = Fin 60, grade = ''D''\<rparr>)]"
    by (simp add: op_defs parse_defs get_grade_Fin)
  moreover have "heap (run [Start ''Zoe'', AddMark ''Quiz1'' ''55'', AddMark ''Quiz2'' ''65'', Finalize]
           initial_state) 2 = [(''Quiz1'', Fin 55), (''Quiz2'', Fin 65)]"
    by (simp add: op_defs parse_defs get_grade_Fin)
  moreover have "100 * length [(''Quiz1'', Fin 55), (''Quiz2'', Fin 65)] < (2::nat) ^ 53"
    by simp
  ultimately show ?thesis
    using roster_invariant
      [of "[Start ''Zoe'', AddMark ''Quiz1'' ''55'', AddMark ''Quiz2'' ''65'', Finalize]"]
    by (intro conjI)
qed

end
